theory Spec2Isabelle
  imports Main
begin

section \<open>Python values, dictionaries and errors\<close>

text \<open>
  The generator script \<^verbatim>\<open>data_generatot.py\<close> builds four lists of dictionaries with
  string keys. A dictionary is modelled as an association list in insertion order (the
  order in which \<^verbatim>\<open>json.dump\<close> writes the keys); a value is one of the Python values
  the script handles. A \<^verbatim>\<open>datetime\<close> is naive (no time zone) and every one the script
  builds has microsecond 0, so it is represented by the number of seconds since
  0001-01-01T00:00:00 (day ordinal 1), the quantity Python itself adds a
  \<^verbatim>\<open>timedelta\<close> to and compares on.
\<close>

type_synonym datetime = int

datatype pyval =
    PNone
  | PBool bool
  | PInt int
  | PStr string
  | PDatetime datetime
  | PList "pyval list"
  | PDict "(string \<times> pyval) list"
  | PObject string

type_synonym pydict = "(string \<times> pyval) list"

datatype error =
    IndexError
  | KeyError string
  | TypeError string
  | AttributeError
  | ValueError
  | OverflowError

text \<open>\<^verbatim>\<open>d[k] = v\<close>: an existing key keeps its position, a new key goes last.\<close>

fun setitem :: "pydict \<Rightarrow> string \<Rightarrow> pyval \<Rightarrow> pydict" where
  "setitem [] k v = [(k, v)]"
| "setitem ((k', v') # d) k v =
     (if k' = k then (k', v) # d else (k', v') # setitem d k v)"

text \<open>\<^verbatim>\<open>d[k]\<close> raises \<^verbatim>\<open>KeyError\<close> when the key is absent.\<close>

definition getitem :: "pydict \<Rightarrow> string \<Rightarrow> error + pyval" where
  "getitem d k = (case map_of d k of None \<Rightarrow> Inl (KeyError k) | Some v \<Rightarrow> Inr v)"

text \<open>\<^verbatim>\<open>k in d\<close>.\<close>

definition has_key :: "pydict \<Rightarrow> string \<Rightarrow> bool" where
  "has_key d k = (map_of d k \<noteq> None)"

text \<open>\<^verbatim>\<open>xs[i]\<close> on a list: a negative index counts from the end, an index out of
  range raises \<^verbatim>\<open>IndexError\<close>.\<close>

definition list_index :: "'a list \<Rightarrow> int \<Rightarrow> error + 'a" where
  "list_index xs i =
     (if 0 \<le> i \<and> i < int (length xs) then Inr (xs ! nat i)
      else if i < 0 \<and> - int (length xs) \<le> i then Inr (xs ! nat (int (length xs) + i))
      else Inl IndexError)"

text \<open>\<^verbatim>\<open>range(a, b)\<close> with the default step 1.\<close>

definition py_range :: "int \<Rightarrow> int \<Rightarrow> int list" where
  "py_range a b = [a..b - 1]"

section \<open>Strings\<close>

text \<open>
  A Python string is represented by its UTF-8 bytes. The byte of the space character
  occurs in this encoding only as a space, so \<^verbatim>\<open>s.replace(" ", "")\<close> acts on the bytes
  as it acts on the characters; \<^verbatim>\<open>s.replace(old, new)\<close> is modelled for a
  one-character \<^verbatim>\<open>old\<close>, which is the only form the script calls.

  \<^verbatim>\<open>str.lower\<close> follows the Unicode case tables of the interpreter (and a context rule
  for the Greek capital sigma), which are not part of the repository: it is a parameter of
  the model, the field \<open>str_lower\<close> of the world below. On a string of ASCII characters
  it does what \<open>ascii_lower\<close> does; \<open>ascii_lower\<close> is used for the example run only.
\<close>

definition ascii_lower_char :: "char \<Rightarrow> char" where
  "ascii_lower_char c =
     (let n = (of_char c :: nat) in if 65 \<le> n \<and> n \<le> 90 then char_of (n + 32) else c)"

definition ascii_lower :: "string \<Rightarrow> string" where
  "ascii_lower s = map ascii_lower_char s"

definition replace :: "string \<Rightarrow> char \<Rightarrow> string \<Rightarrow> string" where
  "replace s old new = concat (map (\<lambda>c. if c = old then new else [c]) s)"

text \<open>Decimal digits of a natural number, and \<^verbatim>\<open>str(i)\<close> of an integer as an f-string
  formats it.\<close>

fun digits :: "nat \<Rightarrow> string" where
  "digits n = (if n < 10 then [char_of (48 + n)] else digits (n div 10) @ [char_of (48 + n mod 10)])"

definition str_of_int :: "int \<Rightarrow> string" where
  "str_of_int i = (if i < 0 then CHR ''-'' # digits (nat (- i)) else digits (nat i))"


section \<open>Dates and times\<close>

text \<open>
  The proleptic Gregorian calendar of Python's \<^verbatim>\<open>datetime\<close> module: day ordinal 1 is
  0001-01-01. \<^verbatim>\<open>ymd2ord\<close> and \<^verbatim>\<open>ord2ymd\<close> follow the module's helpers of the same
  names.
\<close>

definition is_leap :: "int \<Rightarrow> bool" where
  "is_leap year = (year mod 4 = 0 \<and> (year mod 100 \<noteq> 0 \<or> year mod 400 = 0))"

definition days_before_year :: "int \<Rightarrow> int" where
  "days_before_year year =
     (let y = year - 1 in y * 365 + y div 4 - y div 100 + y div 400)"

definition DAYS_IN_MONTH :: "int list" where
  "DAYS_IN_MONTH = [31, 28, 31, 30, 31, 30, 31, 31, 30, 31, 30, 31]"

definition days_before_month :: "int \<Rightarrow> int \<Rightarrow> int" where
  "days_before_month year month =
     sum_list (take (nat (month - 1)) DAYS_IN_MONTH)
       + (if month > 2 \<and> is_leap year then 1 else 0)"

definition ymd2ord :: "int \<Rightarrow> int \<Rightarrow> int \<Rightarrow> int" where
  "ymd2ord year month day = days_before_year year + days_before_month year month + day"

text \<open>The month and the day of the month of day \<open>n\<close> of a year, counted from 0: the month
  is estimated as \<^verbatim>\<open>(n + 50) >> 5\<close> and taken one lower when the estimate is too high.\<close>

definition month_day :: "bool \<Rightarrow> int \<Rightarrow> int \<times> int" where
  "month_day leapyear n =
     (let month = (n + 50) div 32;
          preceding = days_before_month 1 month + (if month > 2 \<and> leapyear then 1 else 0)
      in if preceding > n
         then (let month' = month - 1;
                   preceding' = preceding
                     - (DAYS_IN_MONTH ! nat (month' - 1)
                        + (if month' = 2 \<and> leapyear then 1 else 0))
               in (month', n - preceding' + 1))
         else (month, n - preceding + 1))"

definition ord2ymd :: "int \<Rightarrow> int \<times> int \<times> int" where
  "ord2ymd ordinal =
     (let n0 = ordinal - 1;
          n400 = n0 div 146097; n1 = n0 mod 146097;
          n100 = n1 div 36524; n2 = n1 mod 36524;
          n4 = n2 div 1461; n3 = n2 mod 1461;
          n1y = n3 div 365; n = n3 mod 365;
          year = n400 * 400 + 1 + n100 * 100 + n4 * 4 + n1y
      in if n1y = 4 \<or> n100 = 4 then (year - 1, 12, 31)
         else (case month_day (n1y = 3 \<and> (n4 \<noteq> 24 \<or> n100 = 3)) n of
                 (month, day) \<Rightarrow> (year, month, day)))"

text \<open>\<^verbatim>\<open>datetime(year, month, day, hour, minute, second)\<close> for fields in range.\<close>

definition mk_datetime :: "int \<Rightarrow> int \<Rightarrow> int \<Rightarrow> int \<Rightarrow> int \<Rightarrow> int \<Rightarrow> datetime" where
  "mk_datetime year month day hour minute second =
     (ymd2ord year month day - 1) * 86400 + hour * 3600 + minute * 60 + second"

text \<open>\<^verbatim>\<open>timedelta(days=d, hours=h)\<close>, in seconds.\<close>

definition timedelta :: "int \<Rightarrow> int \<Rightarrow> int" where
  "timedelta days hours = days * 86400 + hours * 3600"

text \<open>The last representable instant is 9999-12-31T23:59:59 (day ordinal 3652059).\<close>

definition MAX_DATETIME :: datetime where
  "MAX_DATETIME = 3652059 * 86400 - 1"

text \<open>\<^verbatim>\<open>v + td\<close>: defined on a \<^verbatim>\<open>datetime\<close>; the result must stay within years 1 to
  9999, otherwise \<^verbatim>\<open>OverflowError\<close>. Any other left operand the script could hold has
  no addition with a \<^verbatim>\<open>timedelta\<close>.\<close>

definition add_timedelta :: "pyval \<Rightarrow> int \<Rightarrow> error + pyval" where
  "add_timedelta v td =
     (case v of
        PDatetime t \<Rightarrow>
          (if 0 \<le> t + td \<and> t + td \<le> MAX_DATETIME then Inr (PDatetime (t + td))
           else Inl OverflowError)
      | _ \<Rightarrow> Inl (TypeError ''unsupported operand type(s) for +''))"


section \<open>Randomness, the name provider and computations that may raise\<close>

text \<open>
  The script draws from the \<^verbatim>\<open>random\<close> module and asks the \<^verbatim>\<open>Faker\<close> provider for
  names, street names, cities and states. Both are external: a run is determined by the
  sequence of raw numbers the random generator yields (\<open>rand_src\<close>) and the sequence
  of texts the provider yields (\<open>faker_src\<close>), each read at a position that advances by
  one per call. Quantifying over all worlds covers every seed. The world also holds the
  interpreter's \<^verbatim>\<open>str.lower\<close> (\<open>str_lower\<close>), which no step changes.
\<close>

record world =
  rand_src :: "nat \<Rightarrow> nat"
  rand_pos :: nat
  faker_src :: "nat \<Rightarrow> string"
  faker_pos :: nat
  str_lower :: "string \<Rightarrow> string"

type_synonym 'a comp = "world \<Rightarrow> error + ('a \<times> world)"

definition ret :: "'a \<Rightarrow> 'a comp" where
  "ret x w = Inr (x, w)"

definition and_then :: "'a comp \<Rightarrow> ('a \<Rightarrow> 'b comp) \<Rightarrow> 'b comp" where
  "and_then m f w = (case m w of Inl e \<Rightarrow> Inl e | Inr (x, w') \<Rightarrow> f x w')"

text \<open>A pure step that may raise.\<close>

definition lift :: "error + 'a \<Rightarrow> 'a comp" where
  "lift r w = (case r of Inl e \<Rightarrow> Inl e | Inr x \<Rightarrow> Inr (x, w))"

definition next_raw :: "world \<Rightarrow> nat \<times> world" where
  "next_raw w = (rand_src w (rand_pos w), w\<lparr>rand_pos := Suc (rand_pos w)\<rparr>)"

text \<open>\<^verbatim>\<open>random.randint(a, b)\<close>: some integer of the closed range, any of them for a
  suitable raw number; \<^verbatim>\<open>ValueError\<close> on an empty range.\<close>

definition randint :: "int \<Rightarrow> int \<Rightarrow> int comp" where
  "randint a b w =
     (if b < a then Inl ValueError
      else (case next_raw w of (r, w') \<Rightarrow> Inr (a + int (r mod nat (b - a + 1)), w')))"

text \<open>\<^verbatim>\<open>random.choice(seq)\<close>: some element of the sequence; \<^verbatim>\<open>IndexError\<close> on an
  empty one.\<close>

definition choice :: "'a list \<Rightarrow> 'a comp" where
  "choice seq w =
     (if seq = [] then Inl IndexError
      else (case next_raw w of (r, w') \<Rightarrow> Inr (seq ! (r mod length seq), w')))"

definition faker_next :: "string comp" where
  "faker_next w = Inr (faker_src w (faker_pos w), w\<lparr>faker_pos := Suc (faker_pos w)\<rparr>)"

definition faker_name :: "string comp" where
  "faker_name = faker_next"

definition faker_street_name :: "string comp" where
  "faker_street_name = faker_next"

definition faker_city :: "string comp" where
  "faker_city = faker_next"

definition faker_state :: "string comp" where
  "faker_state = faker_next"

text \<open>\<^verbatim>\<open>v.replace(" ", "").lower()\<close>, with \<open>lw\<close> the interpreter's \<^verbatim>\<open>str.lower\<close>. String
  methods are looked up on the value: a value that is not a \<^verbatim>\<open>str\<close> has no
  \<^verbatim>\<open>replace\<close>.\<close>

definition str_replace_lower :: "(string \<Rightarrow> string) \<Rightarrow> pyval \<Rightarrow> error + string" where
  "str_replace_lower lw v =
     (case v of PStr s \<Rightarrow> Inr (lw (replace s CHR '' '' '''')) | _ \<Rightarrow> Inl AttributeError)"

text \<open>\<^verbatim>\<open>for x in xs: body\<close>, where the body updates the loop's state and an
  exception raised in the body ends the loop.\<close>

fun for_each :: "'i list \<Rightarrow> ('i \<Rightarrow> 's \<Rightarrow> 's comp) \<Rightarrow> 's \<Rightarrow> 's comp" where
  "for_each [] body s w = Inr (s, w)"
| "for_each (x # xs) body s w =
     (case body x s w of Inl e \<Rightarrow> Inl e | Inr (s', w') \<Rightarrow> for_each xs body s' w')"

section \<open>The generator\<close>

subsection \<open>Customers (source lines 15 to 23)\<close>

definition single_customer_data :: "(string \<Rightarrow> string) \<Rightarrow> int \<Rightarrow> pydict comp" where
  "single_customer_data lw i =
     and_then faker_name (\<lambda>name.
       let d1 = setitem (setitem [] ''customer_id'' (PInt i)) ''name'' (PStr name) in
       and_then (lift (getitem d1 ''name'')) (\<lambda>nm.
       and_then (lift (str_replace_lower lw nm)) (\<lambda>local_part.
       and_then (choice [''hotmail.com'', ''gmail.com'', ''coldmail.com'']) (\<lambda>domain.
       let d2 = setitem d1 ''email'' (PStr (local_part @ ''@'' @ domain)) in
       and_then (randint 111 894) (\<lambda>house.
       and_then faker_street_name (\<lambda>street.
       and_then faker_city (\<lambda>city.
       and_then faker_state (\<lambda>state.
       ret (setitem d2 ''address''
              (PDict [(''street'', PStr (str_of_int house @ '' '' @ street)),
                      (''city'', PStr city),
                      (''state'', PStr state)]))))))))))"

definition customers_loop :: "(string \<Rightarrow> string) \<Rightarrow> (pydict list) comp" where
  "customers_loop lw =
     for_each (py_range 1 25)
       (\<lambda>i customers. and_then (single_customer_data lw i) (\<lambda>c. ret (customers @ [c]))) []"

subsection \<open>Products (source lines 28 to 42)\<close>

definition product_names :: "string list" where
  "product_names =
     [''Laptop'', ''Phone'', ''Tablet'', ''Headphones'', ''Smartwatch'', ''Monitor'',
      ''Keyboard'', ''Mouse'', ''Gaming Chair'', ''Desk Lamp'', ''Router'',
      ''External Hard Drive'', ''USB Flash Drive'', ''Camera'', ''Speakers'',
      ''Fitness Tracker'', ''Microwave'', ''Blender'', ''Air Fryer'',
      ''Electric Kettle'', ''Projector'', ''Desk Organizer'']"

definition product_categories :: "string list" where
  "product_categories =
     [''Electronics'', ''Electronics'', ''Electronics'', ''Accessories'',
      ''Wearables'', ''Electronics'', ''Accessories'', ''Accessories'',
      ''Furniture'', ''Lighting'', ''Networking'', ''Storage'', ''Storage'',
      ''Electronics'', ''Audio'', ''Wearables'', ''Appliances'', ''Appliances'',
      ''Appliances'', ''Appliances'', ''Electronics'', ''Furniture'']"

definition single_product :: "int \<Rightarrow> pydict comp" where
  "single_product i =
     and_then (lift (list_index product_names (i - 101))) (\<lambda>name.
     and_then (lift (list_index product_categories (i - 101))) (\<lambda>category.
     and_then (randint 30 1200) (\<lambda>price.
     and_then (randint 20 90) (\<lambda>stock.
     ret [(''product_id'', PInt i), (''product_name'', PStr name),
          (''category'', PStr category), (''price'', PInt price),
          (''stock_quantity'', PInt stock)]))))"

definition products_loop :: "(pydict list) comp" where
  "products_loop =
     for_each (py_range 101 123)
       (\<lambda>i products. and_then (single_product i) (\<lambda>p. ret (products @ [p]))) []"

subsection \<open>Orders (source lines 44 to 53)\<close>

definition single_order :: "int \<Rightarrow> pydict comp" where
  "single_order i =
     and_then (randint 1 24) (\<lambda>customer.
     and_then (randint 0 730) (\<lambda>days.
     and_then (lift (add_timedelta (PDatetime (mk_datetime 2024 1 15 10 0 0)) (timedelta days 0)))
       (\<lambda>order_date.
     and_then (choice [''Delivered'', ''Pending'']) (\<lambda>status.
     let d = [(''order_id'', PInt i), (''customer_id'', PInt customer),
              (''order_date'', order_date), (''status'', PStr status)] in
     and_then (lift (getitem d ''status'')) (\<lambda>st.
     if st = PStr ''Delivered'' then
       and_then (lift (getitem d ''order_date'')) (\<lambda>od.
       and_then (randint 0 7) (\<lambda>ddays.
       and_then (randint 2 24) (\<lambda>dhours.
       and_then (lift (add_timedelta od (timedelta ddays dhours))) (\<lambda>delivery.
       ret (setitem d ''delivery_date'' delivery)))))
     else ret d)))))"

definition orders_loop :: "(pydict list) comp" where
  "orders_loop =
     for_each (py_range 5001 5030)
       (\<lambda>i orders. and_then (single_order i) (\<lambda>order. ret (orders @ [order]))) []"

subsection \<open>Order items (source lines 57 to 72)\<close>

text \<open>One pass of the inner loop body: the item is appended and the shared counter
  \<^verbatim>\<open>order_item_id\<close> goes up by one.\<close>

definition single_item ::
  "pydict \<Rightarrow> pydict list \<Rightarrow> pydict list \<times> int \<Rightarrow> (pydict list \<times> int) comp" where
  "single_item order products st =
     (case st of (items, counter) \<Rightarrow>
       and_then (choice products) (\<lambda>product.
       and_then (randint 1 3) (\<lambda>quantity.
       and_then (lift (getitem product ''price'')) (\<lambda>price.
       and_then (lift (getitem order ''order_id'')) (\<lambda>oid.
       and_then (lift (getitem product ''product_id'')) (\<lambda>pid.
       ret (items @ [[(''order_item_id'', PInt counter), (''order_id'', oid),
                      (''product_id'', pid), (''quantity'', PInt quantity),
                      (''price'', price)]],
            counter + 1)))))))"

text \<open>The body of the outer loop: \<^verbatim>\<open>num_items\<close> is drawn, then the inner loop
  \<^verbatim>\<open>for _ in range(num_items)\<close> runs (its loop variable is unused).\<close>

definition order_items ::
  "pydict \<Rightarrow> pydict list \<Rightarrow> pydict list \<times> int \<Rightarrow> (pydict list \<times> int) comp" where
  "order_items order products st =
     and_then (randint 1 5) (\<lambda>num_items.
       for_each (py_range 0 num_items) (\<lambda>u. single_item order products) st)"

text \<open>The outer loop starts from the empty item list and the counter at 9001.\<close>

definition order_items_loop :: "pydict list \<Rightarrow> pydict list \<Rightarrow> (pydict list \<times> int) comp" where
  "order_items_loop orders products =
     for_each orders (\<lambda>order. order_items order products) ([], 9001)"

subsection \<open>The whole run, up to the point where the files are written\<close>

record collections =
  sample_customers_list :: "pydict list"
  sample_orders_list :: "pydict list"
  sample_products_list :: "pydict list"
  sample_order_items_list :: "pydict list"
  order_item_id :: int

text \<open>The run takes \<^verbatim>\<open>str.lower\<close> from the world it starts in.\<close>

definition generate :: "collections comp" where
  "generate w =
     and_then (customers_loop (str_lower w)) (\<lambda>customers.
     and_then products_loop (\<lambda>products.
     and_then orders_loop (\<lambda>orders.
     and_then (order_items_loop orders products) (\<lambda>(items, counter).
     ret \<lparr>sample_customers_list = customers, sample_orders_list = orders,
          sample_products_list = products, sample_order_items_list = items,
          order_item_id = counter\<rparr>)))) w"

subsection \<open>The serializer hook (source lines 78 to 81)\<close>


section \<open>Specification predicates\<close>

text \<open>\<open>yields m w Q\<close>: started in world \<open>w\<close>, the computation \<open>m\<close> raises nothing and
  returns a value that satisfies \<open>Q\<close>.\<close>

definition yields :: "'a comp \<Rightarrow> world \<Rightarrow> ('a \<Rightarrow> bool) \<Rightarrow> bool" where
  "yields m w Q = (\<exists>x w'. m w = Inr (x, w') \<and> Q x)"

text \<open>The records one pass of each loop body can append: the customer, product and order
  built for the identifier \<open>i\<close> (for the customer, with \<open>lw\<close> as \<^verbatim>\<open>str.lower\<close>).\<close>

definition customer_ok :: "(string \<Rightarrow> string) \<Rightarrow> int \<Rightarrow> pydict \<Rightarrow> bool" where
  "customer_ok lw i c =
     (\<exists>name domain house street city state.
        domain \<in> set [''hotmail.com'', ''gmail.com'', ''coldmail.com'']
        \<and> 111 \<le> house \<and> house \<le> 894
        \<and> c = [(''customer_id'', PInt i), (''name'', PStr name),
                (''email'', PStr (lw (replace name CHR '' '' '''') @ ''@'' @ domain)),
                (''address'',
                   PDict [(''street'', PStr (str_of_int house @ '' '' @ street)),
                          (''city'', PStr city), (''state'', PStr state)])])"

definition product_ok :: "int \<Rightarrow> pydict \<Rightarrow> bool" where
  "product_ok i p =
     (\<exists>price stock.
        30 \<le> price \<and> price \<le> 1200 \<and> 20 \<le> stock \<and> stock \<le> 90
        \<and> p = [(''product_id'', PInt i),
                (''product_name'', PStr (product_names ! nat (i - 101))),
                (''category'', PStr (product_categories ! nat (i - 101))),
                (''price'', PInt price), (''stock_quantity'', PInt stock)])"

definition order_ok :: "int \<Rightarrow> pydict \<Rightarrow> bool" where
  "order_ok i ord =
     (\<exists>customer days.
        1 \<le> customer \<and> customer \<le> 24 \<and> 0 \<le> days \<and> days \<le> 730
        \<and> (ord = [(''order_id'', PInt i), (''customer_id'', PInt customer),
                   (''order_date'', PDatetime (mk_datetime 2024 1 15 10 0 0 + timedelta days 0)),
                   (''status'', PStr ''Pending'')]
           \<or> (\<exists>d h. 0 \<le> d \<and> d \<le> 7 \<and> 2 \<le> h \<and> h \<le> 24
                \<and> ord = [(''order_id'', PInt i), (''customer_id'', PInt customer),
                   (''order_date'', PDatetime (mk_datetime 2024 1 15 10 0 0 + timedelta days 0)),
                   (''status'', PStr ''Delivered''),
                   (''delivery_date'',
                      PDatetime (mk_datetime 2024 1 15 10 0 0 + timedelta days 0 + timedelta d h))])))"

text \<open>The item appended for \<open>order\<close> when the shared counter stands at \<open>k\<close>.\<close>

definition item_ok :: "pydict \<Rightarrow> pydict list \<Rightarrow> int \<Rightarrow> pydict \<Rightarrow> bool" where
  "item_ok order products k it =
     (\<exists>product quantity oid pid price.
        product \<in> set products \<and> 1 \<le> quantity \<and> quantity \<le> 3
        \<and> getitem order ''order_id'' = Inr oid
        \<and> getitem product ''product_id'' = Inr pid
        \<and> getitem product ''price'' = Inr price
        \<and> it = [(''order_item_id'', PInt k), (''order_id'', oid), (''product_id'', pid),
                 (''quantity'', PInt quantity), (''price'', price)])"

text \<open>The items one order contributes (a block), numbered from \<open>k\<close> on; a list whose
  \<^verbatim>\<open>order_item_id\<close> values count up from \<open>k\<close>.\<close>

definition items_from :: "pydict \<Rightarrow> pydict list \<Rightarrow> int \<Rightarrow> pydict list \<Rightarrow> bool" where
  "items_from order products k block =
     (\<forall>j < length block. item_ok order products (k + int j) (block ! j))"

definition block_ok :: "pydict list \<Rightarrow> pydict \<Rightarrow> pydict list \<Rightarrow> bool" where
  "block_ok products order block =
     (1 \<le> length block \<and> length block \<le> 5 \<and> (\<exists>k. items_from order products k block))"

definition ids_from :: "int \<Rightarrow> pydict list \<Rightarrow> bool" where
  "ids_from k items =
     (\<forall>j < length items. map_of (items ! j) ''order_item_id'' = Some (PInt (k + int j)))"

text \<open>What every run returns, with \<open>lw\<close> as \<^verbatim>\<open>str.lower\<close>.\<close>

definition run_ok :: "(string \<Rightarrow> string) \<Rightarrow> collections \<Rightarrow> bool" where
  "run_ok lw c =
     (list_all2 (customer_ok lw) (py_range 1 25) (sample_customers_list c)
      \<and> list_all2 product_ok (py_range 101 123) (sample_products_list c)
      \<and> list_all2 order_ok (py_range 5001 5030) (sample_orders_list c)
      \<and> order_item_id c = 9001 + int (length (sample_order_items_list c))
      \<and> ids_from 9001 (sample_order_items_list c)
      \<and> (\<exists>blocks. sample_order_items_list c = concat blocks
             \<and> list_all2 (block_ok (sample_products_list c)) (sample_orders_list c) blocks))"

text \<open>The month and day computed for day \<open>n\<close> of a year are in range and lead back to
  \<open>n\<close> through the table of month lengths.\<close>

definition month_day_ok :: "bool \<Rightarrow> int \<Rightarrow> bool" where
  "month_day_ok leapyear n =
     (case month_day leapyear n of
        (m, d) \<Rightarrow> 1 \<le> m \<and> m \<le> 12 \<and> 1 \<le> d \<and> d \<le> 31
          \<and> sum_list (take (nat (m - 1)) DAYS_IN_MONTH) + (if m > 2 \<and> leapyear then 1 else 0) + d
              = n + 1)"

text \<open>The list that repeats the \<open>j\<close>-th element of \<open>xs\<close> as often as the \<open>j\<close>-th number
  of \<open>ns\<close> says, in the order of \<open>xs\<close>.\<close>

definition runs_of :: "'a list \<Rightarrow> nat list \<Rightarrow> 'a list" where
  "runs_of xs ns = concat (map (\<lambda>(x, n). replicate n x) (zip xs ns))"

text \<open>A concrete run for the examples: the raw random numbers are 0, 0, 0, 0, 1, 1, 1, 1, 2
  and so on; the name provider answers \<^verbatim>\<open>Zoe Q Day\<close> to its fifth call (the name of the
  second customer) and \<^verbatim>\<open>A b\<close> to every other call; all these texts are ASCII, so
  \<^verbatim>\<open>str.lower\<close> acts on them as \<open>ascii_lower\<close>.\<close>

definition example_world :: world where
  "example_world =
     \<lparr>rand_src = (\<lambda>n. n div 4), rand_pos = 0,
      faker_src = (\<lambda>n. if n = 4 then ''Zoe Q Day'' else ''A b''), faker_pos = 0,
      str_lower = ascii_lower\<rparr>"

section \<open>Rules for computations and loops\<close>

lemma yields_ret: "Q x \<Longrightarrow> yields (ret x) w Q"
  by (simp add: yields_def ret_def)

lemma yields_and_then:
  assumes "yields m w P" and "\<And>x w'. P x \<Longrightarrow> yields (f x) w' Q"
  shows "yields (and_then m f) w Q"
proof -
  from assms(1) obtain x w' where m: "m w = Inr (x, w')" and p: "P x"
    by (auto simp: yields_def)
  from assms(2)[OF p, of w'] show ?thesis
    by (simp add: yields_def and_then_def m)
qed

lemma yields_lift: "r = Inr x \<Longrightarrow> Q x \<Longrightarrow> yields (lift r) w Q"
  by (simp add: yields_def lift_def)

lemma yields_weaken: "yields m w P \<Longrightarrow> (\<And>x. P x \<Longrightarrow> Q x) \<Longrightarrow> yields m w Q"
  by (auto simp: yields_def)

lemma randint_bound:
  assumes "a \<le> b"
  shows "int (r mod nat (b - a + 1)) \<le> b - a"
proof -
  have "r mod nat (b - a + 1) < nat (b - a + 1)" using assms by simp
  then have "int (r mod nat (b - a + 1)) < int (nat (b - a + 1))"
    by (simp only: of_nat_less_iff)
  then show ?thesis using assms by simp
qed

lemma yields_randint: "a \<le> b \<Longrightarrow> yields (randint a b) w (\<lambda>v. a \<le> v \<and> v \<le> b)"
  using randint_bound[of a b "rand_src w (rand_pos w)"]
  by (simp add: yields_def randint_def next_raw_def)

lemma yields_choice: "seq \<noteq> [] \<Longrightarrow> yields (choice seq) w (\<lambda>x. x \<in> set seq)"
  by (simp add: yields_def choice_def next_raw_def)

lemma yields_faker_next: "yields faker_next w (\<lambda>x. True)"
  by (simp add: yields_def faker_next_def)

lemma for_each_gen:
  assumes step: "\<And>pre x s w. Inv pre s \<Longrightarrow> x \<in> set xs \<Longrightarrow> yields (body x s) w (Inv (pre @ [x]))"
  shows "Inv pre s \<Longrightarrow> set ys \<subseteq> set xs \<Longrightarrow> yields (for_each ys body s) w (Inv (pre @ ys))"
proof (induction ys arbitrary: pre s w)
  case Nil
  then show ?case by (simp add: yields_def)
next
  case (Cons y ys)
  from Cons.prems have y: "y \<in> set xs" and sub: "set ys \<subseteq> set xs" by auto
  from step[OF Cons.prems(1) y, of w] obtain s' w' where
    b: "body y s w = Inr (s', w')" and i: "Inv (pre @ [y]) s'"
    by (auto simp: yields_def)
  from Cons.IH[OF i sub, of w'] show ?case
    by (simp add: yields_def b)
qed

lemma for_each_rule:
  assumes "Inv [] s"
    and "\<And>pre x s w. Inv pre s \<Longrightarrow> x \<in> set xs \<Longrightarrow> yields (body x s) w (Inv (pre @ [x]))"
  shows "yields (for_each xs body s) w (Inv xs)"
  using for_each_gen[where Inv=Inv and xs=xs and ys=xs and pre="[]", OF assms(2) assms(1)]
  by simp

lemma single_customer_data_yields: "yields (single_customer_data lw i) w (customer_ok lw i)"
  unfolding single_customer_data_def faker_name_def faker_street_name_def faker_city_def
    faker_state_def Let_def
  apply (rule yields_and_then[OF yields_faker_next])
  apply (rule yields_and_then[OF yields_lift[where Q="\<lambda>v. v = PStr name" for name]])
    apply (simp add: getitem_def)
   apply (rule refl)
  apply (rule yields_and_then[OF yields_lift[where Q="\<lambda>s. s = lw (replace name CHR '' '' '''')" for name]])
    apply (simp add: str_replace_lower_def)
   apply (rule refl)
  apply (rule yields_and_then[OF yields_choice])
   apply simp
  apply (rule yields_and_then[OF yields_randint])
   apply simp
  apply (rule yields_and_then[OF yields_faker_next])
  apply (rule yields_and_then[OF yields_faker_next])
  apply (rule yields_and_then[OF yields_faker_next])
  apply (rule yields_ret)
  apply (simp add: customer_ok_def)
  apply blast
  done

lemma list_index_ok:
  "0 \<le> i \<Longrightarrow> i < int (length xs) \<Longrightarrow> list_index xs i = Inr (xs ! nat i)"
  by (simp add: list_index_def)

lemma length_product_names: "length product_names = 22"
  by (simp add: product_names_def)

lemma length_product_categories: "length product_categories = 22"
  by (simp add: product_categories_def)

lemma single_product_yields:
  assumes "101 \<le> i" and "i \<le> 122"
  shows "yields (single_product i) w (product_ok i)"
  unfolding single_product_def
  apply (rule yields_and_then[OF yields_lift[where Q="\<lambda>v. v = product_names ! nat (i - 101)"]])
    apply (rule list_index_ok)
  using assms apply simp
  using assms apply (simp add: length_product_names)
   apply (rule refl)
  apply (rule yields_and_then[OF yields_lift[where Q="\<lambda>v. v = product_categories ! nat (i - 101)"]])
    apply (rule list_index_ok)
  using assms apply simp
  using assms apply (simp add: length_product_categories)
   apply (rule refl)
  apply (rule yields_and_then[OF yields_randint])
   apply simp
  apply (rule yields_and_then[OF yields_randint])
   apply simp
  apply (rule yields_ret)
  apply (simp add: product_ok_def)
  done

lemma base_datetime: "mk_datetime 2024 1 15 10 0 0 = 63840909600"
  by (simp add: mk_datetime_def ymd2ord_def days_before_year_def days_before_month_def
      DAYS_IN_MONTH_def is_leap_def)

lemma add_timedelta_order_date:
  assumes "0 \<le> days" and "days \<le> 730"
  shows "add_timedelta (PDatetime (mk_datetime 2024 1 15 10 0 0)) (timedelta days 0)
         = Inr (PDatetime (mk_datetime 2024 1 15 10 0 0 + timedelta days 0))"
  using assms by (simp add: add_timedelta_def base_datetime timedelta_def MAX_DATETIME_def)

lemma add_timedelta_delivery_date:
  assumes "0 \<le> days" and "days \<le> 730" and "0 \<le> d" and "d \<le> 7" and "2 \<le> h" and "h \<le> 24"
  shows "add_timedelta (PDatetime (mk_datetime 2024 1 15 10 0 0 + timedelta days 0)) (timedelta d h)
         = Inr (PDatetime (mk_datetime 2024 1 15 10 0 0 + timedelta days 0 + timedelta d h))"
  using assms by (simp add: add_timedelta_def base_datetime timedelta_def MAX_DATETIME_def)

lemma yields_bind_randint:
  assumes "a \<le> b" and "\<And>v w'. a \<le> v \<Longrightarrow> v \<le> b \<Longrightarrow> yields (f v) w' Q"
  shows "yields (and_then (randint a b) f) w Q"
  by (rule yields_and_then[OF yields_randint[OF assms(1)]]) (simp add: assms(2))

lemma yields_bind_choice:
  assumes "seq \<noteq> []" and "\<And>x w'. x \<in> set seq \<Longrightarrow> yields (f x) w' Q"
  shows "yields (and_then (choice seq) f) w Q"
  by (rule yields_and_then[OF yields_choice[OF assms(1)]]) (simp add: assms(2))

lemma yields_bind_faker:
  assumes "\<And>x w'. yields (f x) w' Q"
  shows "yields (and_then faker_next f) w Q"
  by (rule yields_and_then[OF yields_faker_next]) (simp add: assms)

lemma yields_bind_lift:
  "yields (and_then (lift r) f) w Q = (case r of Inl e \<Rightarrow> False | Inr x \<Rightarrow> yields (f x) w Q)"
  by (simp add: yields_def and_then_def lift_def split: sum.splits)

lemma yields_ret_iff: "yields (ret x) w Q = Q x"
  by (simp add: yields_def ret_def)

lemma single_order_yields: "yields (single_order i) w (order_ok i)"
  unfolding single_order_def Let_def
  apply (rule yields_bind_randint, simp)
  apply (rule yields_bind_randint, simp)
  apply (simp add: yields_bind_lift add_timedelta_order_date)
  apply (rule yields_bind_choice, simp)
  apply (simp add: yields_bind_lift getitem_def)
  apply (erule disjE)
   apply (simp add: yields_bind_lift getitem_def)
   apply (rule yields_bind_randint, simp)
   apply (rule yields_bind_randint, simp)
   apply (simp add: yields_bind_lift add_timedelta_delivery_date yields_ret_iff order_ok_def)
   apply blast
  apply (simp add: yields_ret_iff order_ok_def)
  apply blast
  done

lemma has_key_getitem: "has_key d k \<Longrightarrow> \<exists>v. getitem d k = Inr v"
  by (auto simp: has_key_def getitem_def)

lemma single_item_yields:
  assumes "products \<noteq> []"
    and "\<forall>p \<in> set products. has_key p ''price'' \<and> has_key p ''product_id''"
    and "has_key order ''order_id''"
  shows "yields (single_item order products (items, k)) w
           (\<lambda>(items', k'). \<exists>it. items' = items @ [it] \<and> k' = k + 1 \<and> item_ok order products k it)"
  unfolding single_item_def prod.case
proof (rule yields_bind_choice[OF assms(1)], rule yields_bind_randint, simp)
  fix product :: pydict and quantity :: int and w1 w2 :: world
  assume p: "product \<in> set products" and q: "1 \<le> quantity" "quantity \<le> 3"
  from assms(2) p obtain price pid where
    price: "getitem product ''price'' = Inr price" and pid: "getitem product ''product_id'' = Inr pid"
    by (meson has_key_getitem)
  from assms(3) obtain oid where oid: "getitem order ''order_id'' = Inr oid"
    by (meson has_key_getitem)
  show "yields
          (and_then (lift (getitem product ''price''))
            (\<lambda>price. and_then (lift (getitem order ''order_id''))
              (\<lambda>oid. and_then (lift (getitem product ''product_id''))
                (\<lambda>pid. ret (items @ [[(''order_item_id'', PInt k), (''order_id'', oid),
                                       (''product_id'', pid), (''quantity'', PInt quantity),
                                       (''price'', price)]], k + 1)))))
          w2 (\<lambda>(items', k'). \<exists>it. items' = items @ [it] \<and> k' = k + 1 \<and> item_ok order products k it)"
    using p q by (auto simp: yields_bind_lift yields_ret_iff price pid oid item_ok_def)
qed

lemma length_py_range: "length (py_range a b) = nat (b - a)"
  by (simp add: py_range_def)

lemma order_items_yields:
  assumes "products \<noteq> []"
    and "\<forall>p \<in> set products. has_key p ''price'' \<and> has_key p ''product_id''"
    and "has_key order ''order_id''"
  shows "yields (order_items order products (items, k)) w
           (\<lambda>(items', k'). \<exists>block. items' = items @ block \<and> k' = k + int (length block)
               \<and> 1 \<le> length block \<and> length block \<le> 5 \<and> items_from order products k block)"
  unfolding order_items_def
proof (rule yields_bind_randint, simp)
  fix n :: int and w1 :: world
  assume n: "1 \<le> n" "n \<le> 5"
  let ?Inv = "\<lambda>pre :: int list. \<lambda>(items', k'). \<exists>block. items' = items @ block
      \<and> k' = k + int (length block) \<and> length block = length pre
      \<and> items_from order products k block"
  have "yields (for_each (py_range 0 n) (\<lambda>u. single_item order products) (items, k)) w1
          (?Inv (py_range 0 n))"
  proof (rule for_each_rule)
    show "?Inv [] (items, k)" by (simp add: items_from_def)
  next
    fix pre :: "int list" and x :: int and s :: "pydict list \<times> int" and w :: world
    assume inv: "?Inv pre s"
    then obtain block where s: "s = (items @ block, k + int (length block))"
      and len: "length block = length pre" and fr: "items_from order products k block"
      by (cases s) auto
    have "yields (single_item order products (items @ block, k + int (length block))) w
            (\<lambda>(items', k'). \<exists>it. items' = (items @ block) @ [it] \<and> k' = k + int (length block) + 1
                \<and> item_ok order products (k + int (length block)) it)"
      by (rule single_item_yields[OF assms])
    then show "yields (single_item order products s) w (?Inv (pre @ [x]))"
      unfolding s
    proof (rule yields_weaken)
      fix r :: "pydict list \<times> int"
      assume "case r of (items', k') \<Rightarrow> \<exists>it. items' = (items @ block) @ [it]
                \<and> k' = k + int (length block) + 1
                \<and> item_ok order products (k + int (length block)) it"
      then obtain it where r: "r = (items @ block @ [it], k + int (length block) + 1)"
        and it: "item_ok order products (k + int (length block)) it"
        by (cases r) auto
      have "items_from order products k (block @ [it])"
        using fr it by (auto simp: items_from_def nth_append less_Suc_eq)
      then show "?Inv (pre @ [x]) r"
        unfolding r using len by (auto intro!: exI[of _ "block @ [it]"])
    qed
  qed
  then show "yields (for_each (py_range 0 n) (\<lambda>u. single_item order products) (items, k)) w1
     (\<lambda>(items', k'). \<exists>block. items' = items @ block \<and> k' = k + int (length block)
               \<and> 1 \<le> length block \<and> length block \<le> 5 \<and> items_from order products k block)"
  proof (rule yields_weaken)
    fix r :: "pydict list \<times> int"
    assume "?Inv (py_range 0 n) r"
    then show "case r of (items', k') \<Rightarrow> \<exists>block. items' = items @ block \<and> k' = k + int (length block)
               \<and> 1 \<le> length block \<and> length block \<le> 5 \<and> items_from order products k block"
      using n by (cases r) (auto simp: length_py_range)
  qed
qed

lemma collect_loop_yields:
  assumes "\<And>x w. x \<in> set xs \<Longrightarrow> yields (f x) w (P x)"
  shows "yields (for_each xs (\<lambda>i acc. and_then (f i) (\<lambda>c. ret (acc @ [c]))) []) w (list_all2 P xs)"
proof (rule for_each_rule)
  show "list_all2 P [] []" by simp
next
  fix pre x acc w
  assume inv: "list_all2 P pre acc" and x: "x \<in> set xs"
  show "yields (and_then (f x) (\<lambda>c. ret (acc @ [c]))) w (list_all2 P (pre @ [x]))"
    by (rule yields_and_then[OF assms[OF x]])
      (simp add: yields_ret_iff inv list_all2_appendI)
qed

lemma set_py_range: "set (py_range a b) = {a..<b}"
  by (auto simp: py_range_def)

lemma customers_loop_yields:
  "yields (customers_loop lw) w (list_all2 (customer_ok lw) (py_range 1 25))"
  unfolding customers_loop_def
  by (rule collect_loop_yields) (rule single_customer_data_yields)

lemma products_loop_yields:
  "yields products_loop w (list_all2 product_ok (py_range 101 123))"
  unfolding products_loop_def
  by (rule collect_loop_yields) (simp add: set_py_range single_product_yields)

lemma orders_loop_yields:
  "yields orders_loop w (list_all2 order_ok (py_range 5001 5030))"
  unfolding orders_loop_def
  by (rule collect_loop_yields) (rule single_order_yields)

lemma items_from_ids: "items_from order products k block \<Longrightarrow> ids_from k block"
  by (auto simp: items_from_def ids_from_def item_ok_def)

lemma ids_from_append:
  "ids_from k xs \<Longrightarrow> ids_from (k + int (length xs)) ys \<Longrightarrow> ids_from k (xs @ ys)"
  by (auto simp: ids_from_def nth_append)

lemma order_items_loop_yields:
  assumes "products \<noteq> []"
    and "\<forall>p \<in> set products. has_key p ''price'' \<and> has_key p ''product_id''"
    and "\<forall>order \<in> set orders. has_key order ''order_id''"
  shows "yields (order_items_loop orders products) w
           (\<lambda>(items, k). k = 9001 + int (length items) \<and> ids_from 9001 items
              \<and> (\<exists>blocks. items = concat blocks \<and> list_all2 (block_ok products) orders blocks))"
  unfolding order_items_loop_def
proof (rule for_each_rule[where Inv="\<lambda>pre (items, k). k = 9001 + int (length items)
          \<and> ids_from 9001 items
          \<and> (\<exists>blocks. items = concat blocks \<and> list_all2 (block_ok products) pre blocks)"])
  show "case ([], 9001) of (items, k) \<Rightarrow> k = 9001 + int (length items) \<and> ids_from 9001 items
          \<and> (\<exists>blocks. items = concat blocks \<and> list_all2 (block_ok products) [] blocks)"
    by (simp add: ids_from_def)
next
  fix pre :: "pydict list" and order :: pydict and s :: "pydict list \<times> int" and w :: world
  assume inv: "case s of (items, k) \<Rightarrow> k = 9001 + int (length items) \<and> ids_from 9001 items
          \<and> (\<exists>blocks. items = concat blocks \<and> list_all2 (block_ok products) pre blocks)"
    and mem: "order \<in> set orders"
  then obtain items blocks where s: "s = (items, 9001 + int (length items))"
    and ids: "ids_from 9001 items" and items: "items = concat blocks"
    and blocks: "list_all2 (block_ok products) pre blocks"
    by (cases s) auto
  from assms(3) mem have key: "has_key order ''order_id''" by simp
  show "yields (order_items order products s) w
          (\<lambda>(items, k). k = 9001 + int (length items) \<and> ids_from 9001 items
             \<and> (\<exists>blocks. items = concat blocks
                   \<and> list_all2 (block_ok products) (pre @ [order]) blocks))"
    unfolding s
  proof (rule yields_weaken[OF order_items_yields[OF assms(1) assms(2) key]])
    fix r :: "pydict list \<times> int"
    assume "case r of (items', k') \<Rightarrow> \<exists>block. items' = items @ block
               \<and> k' = 9001 + int (length items) + int (length block)
               \<and> 1 \<le> length block \<and> length block \<le> 5
               \<and> items_from order products (9001 + int (length items)) block"
    then obtain block where r: "r = (items @ block, 9001 + int (length items) + int (length block))"
      and len: "1 \<le> length block" "length block \<le> 5"
      and fr: "items_from order products (9001 + int (length items)) block"
      by (cases r) auto
    have b: "block_ok products order block"
      using len fr by (auto simp: block_ok_def)
    have i: "ids_from 9001 (items @ block)"
      by (rule ids_from_append[OF ids items_from_ids[OF fr]])
    have c: "items @ block = concat (blocks @ [block])"
      by (simp add: items)
    have l: "list_all2 (block_ok products) (pre @ [order]) (blocks @ [block])"
      using blocks b by (simp add: list_all2_appendI)
    have "\<exists>bs. items @ block = concat bs \<and> list_all2 (block_ok products) (pre @ [order]) bs"
      using c l by blast
    with i show "case r of (items, k) \<Rightarrow> k = 9001 + int (length items) \<and> ids_from 9001 items
          \<and> (\<exists>blocks. items = concat blocks
                \<and> list_all2 (block_ok products) (pre @ [order]) blocks)"
      unfolding r by simp
  qed
qed

lemma product_ok_keys: "product_ok i p \<Longrightarrow> has_key p ''price'' \<and> has_key p ''product_id''"
  by (auto simp: product_ok_def has_key_def)

lemma order_ok_key: "order_ok i ord \<Longrightarrow> has_key ord ''order_id''"
  by (auto simp: order_ok_def has_key_def)

lemma list_all2_rightD:
  "list_all2 P xs ys \<Longrightarrow> y \<in> set ys \<Longrightarrow> \<exists>x \<in> set xs. P x y"
  by (metis in_set_conv_nth list_all2_conv_all_nth nth_mem)

lemma generate_yields: "yields generate w (run_ok (str_lower w))"
proof -
  let ?lw = "str_lower w"
  have "yields
          (and_then (customers_loop ?lw) (\<lambda>customers.
           and_then products_loop (\<lambda>products.
           and_then orders_loop (\<lambda>orders.
           and_then (order_items_loop orders products) (\<lambda>(items, counter).
           ret \<lparr>sample_customers_list = customers, sample_orders_list = orders,
                sample_products_list = products, sample_order_items_list = items,
                order_item_id = counter\<rparr>)))))
          w (run_ok ?lw)"
  proof (rule yields_and_then[OF customers_loop_yields],
         rule yields_and_then[OF products_loop_yields],
         rule yields_and_then[OF orders_loop_yields])
    fix customers products orders :: "pydict list" and w1 w2 w3 :: world
    assume cs: "list_all2 (customer_ok ?lw) (py_range 1 25) customers"
      and ps: "list_all2 product_ok (py_range 101 123) products"
      and os: "list_all2 order_ok (py_range 5001 5030) orders"
    from ps have "length products = 22"
      by (simp add: list_all2_lengthD[symmetric] length_py_range)
    then have ne: "products \<noteq> []" by auto
    have pk: "\<forall>p \<in> set products. has_key p ''price'' \<and> has_key p ''product_id''"
      using list_all2_rightD[OF ps] product_ok_keys by blast
    have ok: "\<forall>order \<in> set orders. has_key order ''order_id''"
      using list_all2_rightD[OF os] order_ok_key by blast
    show "yields (and_then (order_items_loop orders products)
            (\<lambda>(items, counter). ret \<lparr>sample_customers_list = customers, sample_orders_list = orders,
                sample_products_list = products, sample_order_items_list = items,
                order_item_id = counter\<rparr>)) w3 (run_ok ?lw)"
      by (rule yields_and_then[OF order_items_loop_yields[OF ne pk ok]])
        (auto simp: yields_ret_iff run_ok_def cs ps os)
  qed
  then show ?thesis by (simp add: yields_def generate_def)
qed

section \<open>Properties of every run\<close>

lemma generate_run:
  obtains c w' where "generate w = Inr (c, w')" and "run_ok (str_lower w) c"
  using generate_yields[of w] by (auto simp: yields_def)

lemma list_all2_map_eq:
  assumes "list_all2 P xs ys" and "\<And>x y. P x y \<Longrightarrow> f y = g x"
  shows "map f ys = map g xs"
  using assms by (induction rule: list_all2_induct) auto

lemma py_range_upto: "py_range a b = [a..b - 1]"
  by (simp add: py_range_def)

lemma customer_ok_id: "customer_ok lw i c \<Longrightarrow> getitem c ''customer_id'' = Inr (PInt i)"
  by (auto simp: customer_ok_def getitem_def)

lemma upto_as_upt: "[a..a + int n - 1] = map (\<lambda>k. a + int k) [0..<n]"
proof (induction n)
  case 0
  then show ?case by simp
next
  case (Suc n)
  have "[a..a + int (Suc n) - 1] = [a..a + int n - 1] @ [a + int n]"
    using upto_rec2[of a "a + int n"] by simp
  with Suc show ?case by simp
qed

subsection \<open>Customer identifiers\<close>

text \<open>
  Claim C6. In every run the \<^verbatim>\<open>customer_id\<close> values of the customer list, read in list
  order, are 1, 2, ..., 24: each appears once, and the customer at index \<open>k\<close> (from 0)
  carries \<open>k + 1\<close>.
\<close>

theorem customer_ids_contiguous:
  "\<exists>c w'. generate w = Inr (c, w')
     \<and> map (\<lambda>cust. getitem cust ''customer_id'') (sample_customers_list c)
         = map (\<lambda>i. Inr (PInt i)) [1..24]
     \<and> map (\<lambda>cust. getitem cust ''customer_id'') (sample_customers_list c)
         = map (\<lambda>k. Inr (PInt (int k + 1))) [0..<24]
     \<and> distinct (map (\<lambda>cust. getitem cust ''customer_id'') (sample_customers_list c))"
proof -
  obtain c w' where g: "generate w = Inr (c, w')" and ok: "run_ok (str_lower w) c"
    by (rule generate_run)
  from ok have cs: "list_all2 (customer_ok (str_lower w)) [1..24] (sample_customers_list c)"
    by (simp add: run_ok_def py_range_upto)
  have m: "map (\<lambda>cust. getitem cust ''customer_id'') (sample_customers_list c)
         = map (\<lambda>i. Inr (PInt i)) [1..24]"
    by (rule list_all2_map_eq[OF cs]) (rule customer_ok_id)
  have u: "[1..24] = map (\<lambda>k. 1 + int k) [0..<24]"
    using upto_as_upt[of 1 24] by simp
  have m2: "map (\<lambda>cust. getitem cust ''customer_id'') (sample_customers_list c)
         = map (\<lambda>k. Inr (PInt (int k + 1))) [0..<24]"
    unfolding m u by (simp add: add.commute)
  have "distinct (map (\<lambda>i. Inr (PInt i) :: error + pyval) [1..24])"
    by (simp add: distinct_map inj_on_def)
  with m m2 g show ?thesis by metis
qed

subsection \<open>The example run\<close>

text \<open>The run of \<open>example_world\<close>, evaluated: the first records of each list, the number
  of items and the final counter.\<close>

lemma example_run:
  "case generate example_world of
     Inl e \<Rightarrow> False
   | Inr (c, w') \<Rightarrow>
       take 2 (sample_customers_list c) =
         [[(''customer_id'', PInt 1), (''name'', PStr ''A b''),
           (''email'', PStr ''ab@hotmail.com''),
           (''address'', PDict [(''street'', PStr ''111 A b''), (''city'', PStr ''A b''),
                                (''state'', PStr ''A b'')])],
          [(''customer_id'', PInt 2), (''name'', PStr ''Zoe Q Day''),
           (''email'', PStr ''zoeqday@hotmail.com''),
           (''address'', PDict [(''street'', PStr ''111 A b''), (''city'', PStr ''A b''),
                                (''state'', PStr ''A b'')])]]
       \<and> take 1 (sample_products_list c) =
         [[(''product_id'', PInt 101), (''product_name'', PStr ''Laptop''),
           (''category'', PStr ''Electronics''), (''price'', PInt 42),
           (''stock_quantity'', PInt 32)]]
       \<and> take 2 (sample_orders_list c) =
         [[(''order_id'', PInt 5001), (''customer_id'', PInt 24),
           (''order_date'', PDatetime 63842896800), (''status'', PStr ''Pending'')],
          [(''order_id'', PInt 5002), (''customer_id'', PInt 24),
           (''order_date'', PDatetime 63842983200), (''status'', PStr ''Delivered''),
           (''delivery_date'', PDatetime 63842994000)]]
       \<and> take 3 (sample_order_items_list c) =
         [[(''order_item_id'', PInt 9001), (''order_id'', PInt 5001),
           (''product_id'', PInt 109), (''quantity'', PInt 2), (''price'', PInt 46)],
          [(''order_item_id'', PInt 9002), (''order_id'', PInt 5001),
           (''product_id'', PInt 109), (''quantity'', PInt 2), (''price'', PInt 46)],
          [(''order_item_id'', PInt 9003), (''order_id'', PInt 5002),
           (''product_id'', PInt 110), (''quantity'', PInt 3), (''price'', PInt 46)]]
       \<and> map (\<lambda>it. getitem it ''order_id'') (take 6 (sample_order_items_list c)) =
         [Inr (PInt 5001), Inr (PInt 5001), Inr (PInt 5002), Inr (PInt 5002),
          Inr (PInt 5002), Inr (PInt 5002)]
       \<and> length (sample_order_items_list c) = 80
       \<and> order_item_id c = 9081"
  by code_simp

lemma list_all2_rightE:
  assumes "list_all2 P xs ys" and "y \<in> set ys"
  obtains x where "x \<in> set xs" and "P x y"
  using list_all2_rightD[OF assms] by blast

lemma example_run_take:
  assumes "take n xs = ys" and "y \<in> set ys"
  shows "y \<in> set xs"
  using assms set_take_subset[of n xs] by auto

subsection \<open>Orders and their delivery date\<close>

text \<open>
  Claim C1. In every run and for every generated order, the key \<^verbatim>\<open>delivery_date\<close> is
  present exactly when the status is \<^verbatim>\<open>Delivered\<close>; for a pending order the key is
  absent (reading it raises \<^verbatim>\<open>KeyError\<close>, it does not hold \<^verbatim>\<open>None\<close>); and when the
  key is present both dates are datetimes with \<^verbatim>\<open>delivery_date\<close> not before
  \<^verbatim>\<open>order_date\<close>.
\<close>
theorem delivery_date_iff_delivered:
  "\<exists>c w'. generate w = Inr (c, w')
     \<and> (\<forall>ord \<in> set (sample_orders_list c).
           (has_key ord ''delivery_date'' \<longleftrightarrow> getitem ord ''status'' = Inr (PStr ''Delivered''))
         \<and> (getitem ord ''status'' = Inr (PStr ''Pending'')
              \<longrightarrow> getitem ord ''delivery_date'' = Inl (KeyError ''delivery_date''))
         \<and> (has_key ord ''delivery_date''
              \<longrightarrow> (\<exists>t0 t1. getitem ord ''order_date'' = Inr (PDatetime t0)
                     \<and> getitem ord ''delivery_date'' = Inr (PDatetime t1) \<and> t0 \<le> t1)))"
proof -
  obtain c w' where g: "generate w = Inr (c, w')" and ok: "run_ok (str_lower w) c"
    by (rule generate_run)
  from ok have os: "list_all2 order_ok (py_range 5001 5030) (sample_orders_list c)"
    by (simp add: run_ok_def)
  have "(has_key ord ''delivery_date'' \<longleftrightarrow> getitem ord ''status'' = Inr (PStr ''Delivered''))
         \<and> (getitem ord ''status'' = Inr (PStr ''Pending'')
              \<longrightarrow> getitem ord ''delivery_date'' = Inl (KeyError ''delivery_date''))
         \<and> (has_key ord ''delivery_date''
              \<longrightarrow> (\<exists>t0 t1. getitem ord ''order_date'' = Inr (PDatetime t0)
                     \<and> getitem ord ''delivery_date'' = Inr (PDatetime t1) \<and> t0 \<le> t1))"
    if "ord \<in> set (sample_orders_list c)" for ord
  proof -
    from os that obtain i where "order_ok i ord" by (rule list_all2_rightE)
    then show ?thesis
      by (auto simp: order_ok_def has_key_def getitem_def timedelta_def)
  qed
  with g show ?thesis by blast
qed

text \<open>Both cases occur in the example run: order 5001 is pending, order 5002 delivered.\<close>

theorem delivery_date_iff_delivered_example:
  "\<exists>c w'. generate example_world = Inr (c, w')
     \<and> [(''order_id'', PInt 5001), (''customer_id'', PInt 24),
         (''order_date'', PDatetime 63842896800), (''status'', PStr ''Pending'')]
          \<in> set (sample_orders_list c)
     \<and> [(''order_id'', PInt 5002), (''customer_id'', PInt 24),
         (''order_date'', PDatetime 63842983200), (''status'', PStr ''Delivered''),
         (''delivery_date'', PDatetime 63842994000)] \<in> set (sample_orders_list c)
     \<and> \<not> has_key [(''order_id'', PInt 5001), (''customer_id'', PInt 24),
         (''order_date'', PDatetime 63842896800), (''status'', PStr ''Pending'')] ''delivery_date''
     \<and> has_key [(''order_id'', PInt 5002), (''customer_id'', PInt 24),
         (''order_date'', PDatetime 63842983200), (''status'', PStr ''Delivered''),
         (''delivery_date'', PDatetime 63842994000)] ''delivery_date''
     \<and> (63842983200 :: int) \<le> 63842994000"
proof -
  let ?p = "[(''order_id'', PInt 5001), (''customer_id'', PInt 24),
         (''order_date'', PDatetime 63842896800), (''status'', PStr ''Pending'')]"
  let ?d = "[(''order_id'', PInt 5002), (''customer_id'', PInt 24),
         (''order_date'', PDatetime 63842983200), (''status'', PStr ''Delivered''),
         (''delivery_date'', PDatetime 63842994000)]"
  from delivery_date_iff_delivered[of example_world] obtain c w' where
    g: "generate example_world = Inr (c, w')" and
    all: "\<forall>ord \<in> set (sample_orders_list c).
           (has_key ord ''delivery_date'' \<longleftrightarrow> getitem ord ''status'' = Inr (PStr ''Delivered''))
         \<and> (getitem ord ''status'' = Inr (PStr ''Pending'')
              \<longrightarrow> getitem ord ''delivery_date'' = Inl (KeyError ''delivery_date''))
         \<and> (has_key ord ''delivery_date''
              \<longrightarrow> (\<exists>t0 t1. getitem ord ''order_date'' = Inr (PDatetime t0)
                     \<and> getitem ord ''delivery_date'' = Inr (PDatetime t1) \<and> t0 \<le> t1))"
    by blast
  from example_run g have t: "take 2 (sample_orders_list c) = [?p, ?d]" by simp
  have p: "?p \<in> set (sample_orders_list c)" and d: "?d \<in> set (sample_orders_list c)"
    by (rule example_run_take[OF t], simp)+
  have sp: "getitem ?p ''status'' = Inr (PStr ''Pending'')"
    and sd: "getitem ?d ''status'' = Inr (PStr ''Delivered'')"
    by (simp_all add: getitem_def)
  from all p sp have "\<not> has_key ?p ''delivery_date''" by (metis Inl_Inr_False has_key_getitem)
  moreover from all d sd have hd: "has_key ?d ''delivery_date''" by blast
  moreover from all d hd have "(63842983200 :: int) \<le> 63842994000"
    by (auto simp: getitem_def)
  ultimately show ?thesis using g p d by blast
qed

text \<open>
  Claim C9. In every run and for every generated order that has a \<^verbatim>\<open>delivery_date\<close>,
  the delivery date is the order date plus \<open>d\<close> days and \<open>h\<close> hours with \<open>d\<close> between 0 and
  7 and \<open>h\<close> between 2 and 24, so it is strictly later, by at least two hours.
\<close>
theorem delivery_after_order:
  "\<exists>c w'. generate w = Inr (c, w')
     \<and> (\<forall>ord \<in> set (sample_orders_list c).
           has_key ord ''delivery_date''
           \<longrightarrow> (\<exists>t0 t1 d h.
                  getitem ord ''order_date'' = Inr (PDatetime t0)
                  \<and> getitem ord ''delivery_date'' = Inr (PDatetime t1)
                  \<and> 0 \<le> d \<and> d \<le> 7 \<and> 2 \<le> h \<and> h \<le> 24
                  \<and> t1 = t0 + timedelta d h
                  \<and> t0 < t1 \<and> t1 - t0 \<ge> 2 * 3600))"
proof -
  obtain c w' where g: "generate w = Inr (c, w')" and ok: "run_ok (str_lower w) c"
    by (rule generate_run)
  from ok have os: "list_all2 order_ok (py_range 5001 5030) (sample_orders_list c)"
    by (simp add: run_ok_def)
  have "\<exists>t0 t1 d h.
                  getitem ord ''order_date'' = Inr (PDatetime t0)
                  \<and> getitem ord ''delivery_date'' = Inr (PDatetime t1)
                  \<and> 0 \<le> d \<and> d \<le> 7 \<and> 2 \<le> h \<and> h \<le> 24
                  \<and> t1 = t0 + timedelta d h
                  \<and> t0 < t1 \<and> t1 - t0 \<ge> 2 * 3600"
    if mem: "ord \<in> set (sample_orders_list c)" and key: "has_key ord ''delivery_date''" for ord
  proof -
    from os mem obtain i where "order_ok i ord" by (rule list_all2_rightE)
    with key obtain customer days d h where
      dh: "0 \<le> d" "d \<le> 7" "2 \<le> h" "h \<le> 24" and
      ord: "ord = [(''order_id'', PInt i), (''customer_id'', PInt customer),
                   (''order_date'', PDatetime (mk_datetime 2024 1 15 10 0 0 + timedelta days 0)),
                   (''status'', PStr ''Delivered''),
                   (''delivery_date'',
                      PDatetime (mk_datetime 2024 1 15 10 0 0 + timedelta days 0 + timedelta d h))]"
      by (auto simp: order_ok_def has_key_def)
    have "0 < timedelta d h" and "2 * 3600 \<le> timedelta d h"
      using dh by (simp_all add: timedelta_def)
    then show ?thesis
      using dh unfolding ord
      by (intro exI[of _ "mk_datetime 2024 1 15 10 0 0 + timedelta days 0"]
            exI[of _ "mk_datetime 2024 1 15 10 0 0 + timedelta days 0 + timedelta d h"]
            exI[of _ d] exI[of _ h])
        (simp add: getitem_def)
  qed
  with g show ?thesis by blast
qed

text \<open>Order 5002 of the example run is delivered three hours after it was placed.\<close>

theorem delivery_after_order_example:
  "\<exists>c w'. generate example_world = Inr (c, w')
     \<and> [(''order_id'', PInt 5002), (''customer_id'', PInt 24),
         (''order_date'', PDatetime 63842983200), (''status'', PStr ''Delivered''),
         (''delivery_date'', PDatetime 63842994000)] \<in> set (sample_orders_list c)
     \<and> has_key [(''order_id'', PInt 5002), (''customer_id'', PInt 24),
         (''order_date'', PDatetime 63842983200), (''status'', PStr ''Delivered''),
         (''delivery_date'', PDatetime 63842994000)] ''delivery_date''
     \<and> (63842994000 :: int) = 63842983200 + timedelta 0 3
     \<and> (63842983200 :: int) < 63842994000"
proof -
  let ?p = "[(''order_id'', PInt 5001), (''customer_id'', PInt 24),
         (''order_date'', PDatetime 63842896800), (''status'', PStr ''Pending'')]"
  let ?d = "[(''order_id'', PInt 5002), (''customer_id'', PInt 24),
         (''order_date'', PDatetime 63842983200), (''status'', PStr ''Delivered''),
         (''delivery_date'', PDatetime 63842994000)]"
  from delivery_after_order[of example_world] obtain c w' where
    g: "generate example_world = Inr (c, w')" and
    all: "\<forall>ord \<in> set (sample_orders_list c).
           has_key ord ''delivery_date''
           \<longrightarrow> (\<exists>t0 t1 d h.
                  getitem ord ''order_date'' = Inr (PDatetime t0)
                  \<and> getitem ord ''delivery_date'' = Inr (PDatetime t1)
                  \<and> 0 \<le> d \<and> d \<le> 7 \<and> 2 \<le> h \<and> h \<le> 24
                  \<and> t1 = t0 + timedelta d h
                  \<and> t0 < t1 \<and> t1 - t0 \<ge> 2 * 3600)"
    by blast
  from example_run g have t: "take 2 (sample_orders_list c) = [?p, ?d]" by simp
  have d: "?d \<in> set (sample_orders_list c)"
    by (rule example_run_take[OF t]) simp
  have hk: "has_key ?d ''delivery_date''" by (simp add: has_key_def)
  from all d hk obtain t0 t1 :: int where
    od: "getitem ?d ''order_date'' = Inr (PDatetime t0)" and
    dd: "getitem ?d ''delivery_date'' = Inr (PDatetime t1)" and lt: "t0 < t1"
    by blast
  from od have "t0 = 63842983200" by (simp add: getitem_def)
  moreover from dd have "t1 = 63842994000" by (simp add: getitem_def)
  ultimately have "(63842983200 :: int) < 63842994000" using lt by simp
  moreover have "(63842994000 :: int) = 63842983200 + timedelta 0 3"
    by (simp add: timedelta_def)
  ultimately show ?thesis using g d hk by blast
qed

subsection \<open>Products\<close>

lemma product_ok_fields:
  assumes "product_ok i p"
  shows "getitem p ''product_id'' = Inr (PInt i)"
    and "getitem p ''product_name'' = Inr (PStr (product_names ! nat (i - 101)))"
    and "getitem p ''category'' = Inr (PStr (product_categories ! nat (i - 101)))"
    and "\<exists>price. getitem p ''price'' = Inr (PInt price) \<and> 30 \<le> price \<and> price \<le> 1200"
    and "\<exists>stock. getitem p ''stock_quantity'' = Inr (PInt stock) \<and> 20 \<le> stock \<and> stock \<le> 90"
  using assms by (auto simp: product_ok_def getitem_def)

lemma py_range_nth: "k < nat (b - a) \<Longrightarrow> py_range a b ! k = a + int k"
  by (simp add: py_range_def)

lemma list_all2_py_range:
  assumes "list_all2 P (py_range a b) ys"
  shows "length ys = nat (b - a)" and "k < nat (b - a) \<Longrightarrow> P (a + int k) (ys ! k)"
proof -
  from assms show len: "length ys = nat (b - a)"
    by (simp add: list_all2_lengthD[symmetric] length_py_range)
  assume k: "k < nat (b - a)"
  with len assms have "P (py_range a b ! k) (ys ! k)"
    by (simp add: list_all2_nthD2)
  with k show "P (a + int k) (ys ! k)" by (simp only: py_range_nth)
qed

text \<open>
  Claim C4. In every run the \<^verbatim>\<open>product_id\<close> values of the product list are 101, ..., 122
  in list order, each once; both static lists have 22 entries; and the product at index
  \<open>k\<close> has identifier \<open>101 + k\<close>, the name and the category at offset \<open>k\<close> of the two
  static lists, a price between 30 and 1200 and a stock quantity between 20 and 90.
\<close>
theorem products_follow_static_lists:
  "\<exists>c w'. generate w = Inr (c, w')
     \<and> map (\<lambda>p. getitem p ''product_id'') (sample_products_list c)
         = map (\<lambda>i. Inr (PInt i)) [101..122]
     \<and> distinct (map (\<lambda>p. getitem p ''product_id'') (sample_products_list c))
     \<and> length product_names = 22 \<and> length product_categories = 22
     \<and> (\<forall>k < 22.
           getitem (sample_products_list c ! k) ''product_id'' = Inr (PInt (101 + int k))
         \<and> getitem (sample_products_list c ! k) ''product_name'' = Inr (PStr (product_names ! k))
         \<and> getitem (sample_products_list c ! k) ''category'' = Inr (PStr (product_categories ! k))
         \<and> (\<exists>price. getitem (sample_products_list c ! k) ''price'' = Inr (PInt price)
                \<and> 30 \<le> price \<and> price \<le> 1200)
         \<and> (\<exists>stock. getitem (sample_products_list c ! k) ''stock_quantity'' = Inr (PInt stock)
                \<and> 20 \<le> stock \<and> stock \<le> 90))"
proof -
  obtain c w' where g: "generate w = Inr (c, w')" and ok: "run_ok (str_lower w) c"
    by (rule generate_run)
  let ?ps = "sample_products_list c"
  from ok have ps: "list_all2 product_ok (py_range 101 123) ?ps"
    by (simp add: run_ok_def)
  have "map (\<lambda>p. getitem p ''product_id'') ?ps = map (\<lambda>i. Inr (PInt i)) (py_range 101 123)"
    by (rule list_all2_map_eq[OF ps]) (rule product_ok_fields(1))
  then have m: "map (\<lambda>p. getitem p ''product_id'') ?ps = map (\<lambda>i. Inr (PInt i)) [101..122]"
    by (simp add: py_range_upto)
  have "distinct (map (\<lambda>i. Inr (PInt i) :: error + pyval) [101..122])"
    by (simp add: distinct_map inj_on_def)
  then have dist: "distinct (map (\<lambda>p. getitem p ''product_id'') ?ps)"
    by (simp only: m)
  have each: "product_ok (101 + int k) (?ps ! k)" if "k < 22" for k
    using list_all2_py_range(2)[OF ps, of k] that by simp
  have "getitem (?ps ! k) ''product_id'' = Inr (PInt (101 + int k))
         \<and> getitem (?ps ! k) ''product_name'' = Inr (PStr (product_names ! k))
         \<and> getitem (?ps ! k) ''category'' = Inr (PStr (product_categories ! k))
         \<and> (\<exists>price. getitem (?ps ! k) ''price'' = Inr (PInt price)
                \<and> 30 \<le> price \<and> price \<le> 1200)
         \<and> (\<exists>stock. getitem (?ps ! k) ''stock_quantity'' = Inr (PInt stock)
                \<and> 20 \<le> stock \<and> stock \<le> 90)" if "k < 22" for k
    using product_ok_fields[OF each[OF that]] by simp
  then have flds: "\<forall>k < 22.
           getitem (?ps ! k) ''product_id'' = Inr (PInt (101 + int k))
         \<and> getitem (?ps ! k) ''product_name'' = Inr (PStr (product_names ! k))
         \<and> getitem (?ps ! k) ''category'' = Inr (PStr (product_categories ! k))
         \<and> (\<exists>price. getitem (?ps ! k) ''price'' = Inr (PInt price)
                \<and> 30 \<le> price \<and> price \<le> 1200)
         \<and> (\<exists>stock. getitem (?ps ! k) ''stock_quantity'' = Inr (PInt stock)
                \<and> 20 \<le> stock \<and> stock \<le> 90)"
    by blast
  show ?thesis
    by (intro exI[of _ c] exI[of _ w'] conjI)
      (fact g m dist length_product_names length_product_categories flds)+
qed

text \<open>The first product of the example run is the laptop, an electronics product.\<close>

theorem products_follow_static_lists_example:
  "\<exists>c w'. generate example_world = Inr (c, w')
     \<and> sample_products_list c ! 0 =
         [(''product_id'', PInt 101), (''product_name'', PStr ''Laptop''),
          (''category'', PStr ''Electronics''), (''price'', PInt 42),
          (''stock_quantity'', PInt 32)]
     \<and> (0 :: nat) < 22
     \<and> product_names ! 0 = ''Laptop'' \<and> product_categories ! 0 = ''Electronics''
     \<and> getitem (sample_products_list c ! 0) ''product_name'' = Inr (PStr ''Laptop'')
     \<and> getitem (sample_products_list c ! 0) ''category'' = Inr (PStr ''Electronics'')"
proof -
  from products_follow_static_lists[of example_world] obtain c w' where
    g: "generate example_world = Inr (c, w')" and
    all: "\<forall>k < 22.
           getitem (sample_products_list c ! k) ''product_id'' = Inr (PInt (101 + int k))
         \<and> getitem (sample_products_list c ! k) ''product_name'' = Inr (PStr (product_names ! k))
         \<and> getitem (sample_products_list c ! k) ''category'' = Inr (PStr (product_categories ! k))
         \<and> (\<exists>price. getitem (sample_products_list c ! k) ''price'' = Inr (PInt price)
                \<and> 30 \<le> price \<and> price \<le> 1200)
         \<and> (\<exists>stock. getitem (sample_products_list c ! k) ''stock_quantity'' = Inr (PInt stock)
                \<and> 20 \<le> stock \<and> stock \<le> 90)"
    by blast
  from example_run g have t: "take 1 (sample_products_list c) =
         [[(''product_id'', PInt 101), (''product_name'', PStr ''Laptop''),
          (''category'', PStr ''Electronics''), (''price'', PInt 42),
          (''stock_quantity'', PInt 32)]]" by simp
  have "take 1 (sample_products_list c) ! 0 = sample_products_list c ! 0" by simp
  with t have p0: "sample_products_list c ! 0 =
         [(''product_id'', PInt 101), (''product_name'', PStr ''Laptop''),
          (''category'', PStr ''Electronics''), (''price'', PInt 42),
          (''stock_quantity'', PInt 32)]" by simp
  have n: "product_names ! 0 = ''Laptop''" and ct: "product_categories ! 0 = ''Electronics''"
    by (simp_all add: product_names_def product_categories_def)
  have z: "(0 :: nat) < 22" by simp
  from all z have
    "getitem (sample_products_list c ! 0) ''product_name'' = Inr (PStr (product_names ! 0))"
    "getitem (sample_products_list c ! 0) ''category'' = Inr (PStr (product_categories ! 0))"
    by blast+
  with n ct have "getitem (sample_products_list c ! 0) ''product_name'' = Inr (PStr ''Laptop'')"
    "getitem (sample_products_list c ! 0) ''category'' = Inr (PStr ''Electronics'')"
    by simp_all
  with g p0 n ct z show ?thesis by blast
qed

subsection \<open>Orders, blocks of items and their fields\<close>

lemma item_ok_fields:
  assumes "item_ok order products k it"
  shows "getitem it ''order_item_id'' = Inr (PInt k)"
    and "getitem it ''order_id'' = getitem order ''order_id''"
    and "\<exists>p \<in> set products. \<exists>pid price.
           getitem p ''product_id'' = Inr pid \<and> getitem it ''product_id'' = Inr pid
           \<and> getitem p ''price'' = Inr price \<and> getitem it ''price'' = Inr price"
    and "\<exists>q. getitem it ''quantity'' = Inr (PInt q) \<and> 1 \<le> q \<and> q \<le> 3"
proof -
  from assms obtain product quantity oid pid price where
    p: "product \<in> set products" and q: "1 \<le> quantity" "quantity \<le> 3" and
    oid: "getitem order ''order_id'' = Inr oid" and
    pid: "getitem product ''product_id'' = Inr pid" and
    price: "getitem product ''price'' = Inr price" and
    it: "it = [(''order_item_id'', PInt k), (''order_id'', oid), (''product_id'', pid),
               (''quantity'', PInt quantity), (''price'', price)]"
    unfolding item_ok_def by blast
  show "getitem it ''order_item_id'' = Inr (PInt k)"
    by (simp add: it getitem_def)
  have "getitem it ''order_id'' = Inr oid"
    by (simp add: it getitem_def)
  with oid show "getitem it ''order_id'' = getitem order ''order_id''"
    by simp
  have "getitem it ''product_id'' = Inr pid" "getitem it ''price'' = Inr price"
    by (simp_all add: it getitem_def)
  with p pid price show "\<exists>p \<in> set products. \<exists>pid price.
           getitem p ''product_id'' = Inr pid \<and> getitem it ''product_id'' = Inr pid
           \<and> getitem p ''price'' = Inr price \<and> getitem it ''price'' = Inr price"
    by blast
  have "getitem it ''quantity'' = Inr (PInt quantity)"
    by (simp add: it getitem_def)
  with q show "\<exists>q. getitem it ''quantity'' = Inr (PInt q) \<and> 1 \<le> q \<and> q \<le> 3"
    by blast
qed

lemma block_ok_item:
  assumes "block_ok products order block" and "it \<in> set block"
  obtains k where "item_ok order products k it"
proof -
  from assms(1) obtain k0 where "items_from order products k0 block"
    by (auto simp: block_ok_def)
  moreover from assms(2) obtain j where "j < length block" "it = block ! j"
    by (auto simp: in_set_conv_nth)
  ultimately have "item_ok order products (k0 + int j) it"
    by (simp add: items_from_def)
  then show ?thesis by (rule that)
qed

lemma block_ok_length:
  "block_ok products order block \<Longrightarrow> 1 \<le> length block \<and> length block \<le> 5"
  by (simp add: block_ok_def)

lemma order_ok_fields:
  assumes "order_ok i ord"
  shows "getitem ord ''order_id'' = Inr (PInt i)"
    and "getitem ord ''status'' = Inr (PStr ''Delivered'')
         \<or> getitem ord ''status'' = Inr (PStr ''Pending'')"
    and "\<exists>cid. getitem ord ''customer_id'' = Inr (PInt cid) \<and> 1 \<le> cid \<and> cid \<le> 24"
  using assms by (auto simp: order_ok_def getitem_def)

lemma length_concat_bounds:
  assumes "\<forall>b \<in> set bs. lo \<le> length b \<and> length b \<le> hi"
  shows "lo * length bs \<le> length (concat bs) \<and> length (concat bs) \<le> hi * length bs"
  using assms
proof (induction bs)
  case Nil
  then show ?case by simp
next
  case (Cons b bs)
  then have "lo \<le> length b" "length b \<le> hi"
    and "lo * length bs \<le> length (concat bs)" "length (concat bs) \<le> hi * length bs"
    by auto
  then show ?case by simp
qed

text \<open>The blocks of a run: one per order, in the order of the order list.\<close>

lemma run_blocks:
  assumes "run_ok lw c"
  shows "\<exists>blocks.
           sample_order_items_list c = concat blocks
         \<and> length blocks = 29
         \<and> length (sample_orders_list c) = 29
         \<and> (\<forall>j < 29. order_ok (5001 + int j) (sample_orders_list c ! j)
               \<and> block_ok (sample_products_list c) (sample_orders_list c ! j) (blocks ! j))"
proof -
  from assms obtain blocks where
    items: "sample_order_items_list c = concat blocks" and
    bl: "list_all2 (block_ok (sample_products_list c)) (sample_orders_list c) blocks" and
    os: "list_all2 order_ok (py_range 5001 5030) (sample_orders_list c)"
    by (auto simp: run_ok_def)
  have len: "length (sample_orders_list c) = 29"
    using list_all2_py_range(1)[OF os] by simp
  have lb: "length blocks = 29"
    using list_all2_lengthD[OF bl] len by simp
  have o: "order_ok (5001 + int j) (sample_orders_list c ! j)" if "j < 29" for j
    using list_all2_py_range(2)[OF os, of j] that by simp
  have b: "block_ok (sample_products_list c) (sample_orders_list c ! j) (blocks ! j)"
    if "j < 29" for j
    using bl that lb by (simp add: list_all2_nthD2)
  from items lb len o b show ?thesis by blast
qed

subsection \<open>Sizes of the four collections\<close>

text \<open>
  Claim C5. Every run, whatever the random numbers, returns 24 customers, 22 products and
  29 orders; the \<^verbatim>\<open>order_id\<close> values are 5001, ..., 5029 in list order; every order has
  status \<^verbatim>\<open>Delivered\<close> or \<^verbatim>\<open>Pending\<close> and a \<^verbatim>\<open>customer_id\<close> between 1 and 24. The
  item list is the concatenation of 29 blocks, block \<open>j\<close> holding the items of order \<open>j\<close>;
  the length of a block is the item count chosen for its order, between 1 and 5, and the
  number of items is the sum of these counts, between 29 and 145.
\<close>
theorem collection_sizes:
  "\<exists>c w'. generate w = Inr (c, w')
     \<and> length (sample_customers_list c) = 24
     \<and> length (sample_products_list c) = 22
     \<and> length (sample_orders_list c) = 29
     \<and> map (\<lambda>ord. getitem ord ''order_id'') (sample_orders_list c)
         = map (\<lambda>i. Inr (PInt i)) [5001..5029]
     \<and> (\<forall>ord \<in> set (sample_orders_list c).
           (getitem ord ''status'' = Inr (PStr ''Delivered'')
            \<or> getitem ord ''status'' = Inr (PStr ''Pending''))
         \<and> (\<exists>cid. getitem ord ''customer_id'' = Inr (PInt cid) \<and> 1 \<le> cid \<and> cid \<le> 24))
     \<and> (\<exists>blocks.
           sample_order_items_list c = concat blocks
         \<and> length blocks = 29
         \<and> (\<forall>j < 29. 1 \<le> length (blocks ! j) \<and> length (blocks ! j) \<le> 5
               \<and> (\<forall>it \<in> set (blocks ! j).
                     getitem it ''order_id'' = getitem (sample_orders_list c ! j) ''order_id''))
         \<and> length (sample_order_items_list c) = sum_list (map length blocks))
     \<and> 29 \<le> length (sample_order_items_list c)
     \<and> length (sample_order_items_list c) \<le> 145"
proof -
  obtain c w' where g: "generate w = Inr (c, w')" and ok: "run_ok (str_lower w) c"
    by (rule generate_run)
  from ok have cs: "list_all2 (customer_ok (str_lower w)) (py_range 1 25) (sample_customers_list c)"
    and ps: "list_all2 product_ok (py_range 101 123) (sample_products_list c)"
    and os: "list_all2 order_ok (py_range 5001 5030) (sample_orders_list c)"
    by (simp_all add: run_ok_def)
  have lc: "length (sample_customers_list c) = 24"
    using list_all2_py_range(1)[OF cs] by simp
  have lp: "length (sample_products_list c) = 22"
    using list_all2_py_range(1)[OF ps] by simp
  have lo: "length (sample_orders_list c) = 29"
    using list_all2_py_range(1)[OF os] by simp
  have "map (\<lambda>ord. getitem ord ''order_id'') (sample_orders_list c)
         = map (\<lambda>i. Inr (PInt i)) (py_range 5001 5030)"
    by (rule list_all2_map_eq[OF os]) (rule order_ok_fields(1))
  then have ids: "map (\<lambda>ord. getitem ord ''order_id'') (sample_orders_list c)
         = map (\<lambda>i. Inr (PInt i)) [5001..5029]"
    by (simp add: py_range_upto)
  have each: "\<forall>ord \<in> set (sample_orders_list c).
           (getitem ord ''status'' = Inr (PStr ''Delivered'')
            \<or> getitem ord ''status'' = Inr (PStr ''Pending''))
         \<and> (\<exists>cid. getitem ord ''customer_id'' = Inr (PInt cid) \<and> 1 \<le> cid \<and> cid \<le> 24)"
  proof
    fix ord assume "ord \<in> set (sample_orders_list c)"
    with os obtain i where "order_ok i ord" by (rule list_all2_rightE)
    from order_ok_fields(2,3)[OF this]
    show "(getitem ord ''status'' = Inr (PStr ''Delivered'')
            \<or> getitem ord ''status'' = Inr (PStr ''Pending''))
         \<and> (\<exists>cid. getitem ord ''customer_id'' = Inr (PInt cid) \<and> 1 \<le> cid \<and> cid \<le> 24)"
      by simp
  qed
  from run_blocks[OF ok] obtain blocks where
    items: "sample_order_items_list c = concat blocks" and
    lb: "length blocks = 29" and
    b: "\<And>j. j < 29 \<Longrightarrow>
          block_ok (sample_products_list c) (sample_orders_list c ! j) (blocks ! j)"
    by blast
  have blk: "\<forall>j < 29. 1 \<le> length (blocks ! j) \<and> length (blocks ! j) \<le> 5
               \<and> (\<forall>it \<in> set (blocks ! j).
                     getitem it ''order_id'' = getitem (sample_orders_list c ! j) ''order_id'')"
  proof (intro allI impI conjI ballI)
    fix j :: nat assume j: "j < 29"
    from block_ok_length[OF b[OF j]]
    show "1 \<le> length (blocks ! j)" and "length (blocks ! j) \<le> 5" by simp_all
    fix it assume "it \<in> set (blocks ! j)"
    with b[OF j] obtain k where
      "item_ok (sample_orders_list c ! j) (sample_products_list c) k it"
      by (rule block_ok_item)
    then show "getitem it ''order_id'' = getitem (sample_orders_list c ! j) ''order_id''"
      by (rule item_ok_fields(2))
  qed
  have sum: "length (sample_order_items_list c) = sum_list (map length blocks)"
    by (simp add: items length_concat)
  have "\<forall>bl \<in> set blocks. 1 \<le> length bl \<and> length bl \<le> 5"
    using blk lb by (auto simp: in_set_conv_nth)
  from length_concat_bounds[OF this] lb
  have lo_hi: "29 \<le> length (sample_order_items_list c)"
    "length (sample_order_items_list c) \<le> 145"
    by (simp_all add: items)
  have ex: "\<exists>blocks.
           sample_order_items_list c = concat blocks
         \<and> length blocks = 29
         \<and> (\<forall>j < 29. 1 \<le> length (blocks ! j) \<and> length (blocks ! j) \<le> 5
               \<and> (\<forall>it \<in> set (blocks ! j).
                     getitem it ''order_id'' = getitem (sample_orders_list c ! j) ''order_id''))
         \<and> length (sample_order_items_list c) = sum_list (map length blocks)"
    using items lb blk sum by blast
  show ?thesis
    by (intro exI[of _ c] exI[of _ w'] conjI) (fact g lc lp lo ids each ex lo_hi)+
qed

text \<open>The example run has 80 items; its first order is pending, for customer 24.\<close>

theorem collection_sizes_example:
  "\<exists>c w'. generate example_world = Inr (c, w')
     \<and> [(''order_id'', PInt 5001), (''customer_id'', PInt 24),
         (''order_date'', PDatetime 63842896800), (''status'', PStr ''Pending'')]
          \<in> set (sample_orders_list c)
     \<and> getitem [(''order_id'', PInt 5001), (''customer_id'', PInt 24),
         (''order_date'', PDatetime 63842896800), (''status'', PStr ''Pending'')] ''customer_id''
         = Inr (PInt 24)
     \<and> length (sample_customers_list c) = 24
     \<and> length (sample_products_list c) = 22
     \<and> length (sample_orders_list c) = 29
     \<and> length (sample_order_items_list c) = 80
     \<and> (29 :: nat) \<le> 80 \<and> (80 :: nat) \<le> 145"
proof -
  let ?p = "[(''order_id'', PInt 5001), (''customer_id'', PInt 24),
         (''order_date'', PDatetime 63842896800), (''status'', PStr ''Pending'')]"
  let ?d = "[(''order_id'', PInt 5002), (''customer_id'', PInt 24),
         (''order_date'', PDatetime 63842983200), (''status'', PStr ''Delivered''),
         (''delivery_date'', PDatetime 63842994000)]"
  from collection_sizes[of example_world] obtain c w' where
    g: "generate example_world = Inr (c, w')" and
    lc: "length (sample_customers_list c) = 24" and
    lp: "length (sample_products_list c) = 22" and
    lo: "length (sample_orders_list c) = 29" and
    each: "\<forall>ord \<in> set (sample_orders_list c).
           (getitem ord ''status'' = Inr (PStr ''Delivered'')
            \<or> getitem ord ''status'' = Inr (PStr ''Pending''))
         \<and> (\<exists>cid. getitem ord ''customer_id'' = Inr (PInt cid) \<and> 1 \<le> cid \<and> cid \<le> 24)" and
    lo_hi: "29 \<le> length (sample_order_items_list c)"
      "length (sample_order_items_list c) \<le> 145"
    by blast
  from example_run g have t: "take 2 (sample_orders_list c) = [?p, ?d]"
    and n: "length (sample_order_items_list c) = 80" by simp_all
  have p: "?p \<in> set (sample_orders_list c)"
    by (rule example_run_take[OF t]) simp
  from each p obtain cid where "getitem ?p ''customer_id'' = Inr (PInt cid)" by blast
  then have cid: "getitem ?p ''customer_id'' = Inr (PInt 24)" by (simp add: getitem_def)
  from lo_hi n have "(29 :: nat) \<le> 80" "(80 :: nat) \<le> 145" by simp_all
  with g p cid lc lp lo n show ?thesis by blast
qed

subsection \<open>Order item identifiers\<close>

lemma single_item_step_map:
  assumes "single_item order products (items, k) w = Inr ((items', k'), w')"
  shows "k' = k + 1 \<and> (\<exists>it. items' = items @ [it] \<and> map_of it ''order_item_id'' = Some (PInt k))"
  using assms
  by (auto simp: single_item_def and_then_def lift_def ret_def choice_def randint_def
      next_raw_def getitem_def split: sum.splits if_splits prod.splits option.splits)

lemma single_item_step:
  assumes "single_item order products (items, k) w = Inr ((items', k'), w')"
  shows "k' = k + 1 \<and> (\<exists>it. items' = items @ [it] \<and> getitem it ''order_item_id'' = Inr (PInt k))"
proof -
  from single_item_step_map[OF assms] obtain it where
    "k' = k + 1" "items' = items @ [it]" "map_of it ''order_item_id'' = Some (PInt k)"
    by blast
  moreover from this(3) have "getitem it ''order_item_id'' = Inr (PInt k)"
    by (simp add: getitem_def)
  ultimately show ?thesis by blast
qed

lemma ids_from_nth:
  "ids_from k items \<Longrightarrow> j < length items
     \<Longrightarrow> getitem (items ! j) ''order_item_id'' = Inr (PInt (k + int j))"
  by (simp add: ids_from_def getitem_def)

text \<open>
  Claim C2. In every run the \<^verbatim>\<open>order_item_id\<close> values of the item list, read in list
  order, are 9001, 9002, ... without gap or repetition: the item at index \<open>k\<close> carries
  \<open>9001 + k\<close>, and the counter ends at 9001 plus the number of items. One pass of the
  inner loop body, for any order, appends one item carrying the current counter and
  raises the counter by exactly one.
\<close>
theorem order_item_ids_contiguous:
  "(\<exists>c w'. generate w = Inr (c, w')
      \<and> map (\<lambda>it. getitem it ''order_item_id'') (sample_order_items_list c)
          = map (\<lambda>k. Inr (PInt (9001 + int k))) [0..<length (sample_order_items_list c)]
      \<and> (\<forall>k < length (sample_order_items_list c).
            getitem (sample_order_items_list c ! k) ''order_item_id'' = Inr (PInt (9001 + int k)))
      \<and> distinct (map (\<lambda>it. getitem it ''order_item_id'') (sample_order_items_list c))
      \<and> order_item_id c = 9001 + int (length (sample_order_items_list c)))
   \<and> (\<forall>order products items k u items' k' u'.
         single_item order products (items, k) u = Inr ((items', k'), u')
         \<longrightarrow> k' = k + 1
             \<and> (\<exists>it. items' = items @ [it] \<and> getitem it ''order_item_id'' = Inr (PInt k)))"
proof -
  obtain c w' where g: "generate w = Inr (c, w')" and ok: "run_ok (str_lower w) c"
    by (rule generate_run)
  let ?items = "sample_order_items_list c"
  from ok have ids: "ids_from 9001 ?items"
    and cnt: "order_item_id c = 9001 + int (length ?items)"
    by (simp_all add: run_ok_def)
  have nth: "\<forall>k < length ?items.
      getitem (?items ! k) ''order_item_id'' = Inr (PInt (9001 + int k))"
    using ids_from_nth[OF ids] by blast
  have m: "map (\<lambda>it. getitem it ''order_item_id'') ?items
          = map (\<lambda>k. Inr (PInt (9001 + int k))) [0..<length ?items]"
    using nth by (intro nth_equalityI) simp_all
  have "distinct (map (\<lambda>k. Inr (PInt (9001 + int k)) :: error + pyval) [0..<length ?items])"
    by (simp add: distinct_map inj_on_def)
  then have dist: "distinct (map (\<lambda>it. getitem it ''order_item_id'') ?items)"
    by (simp only: m)
  have run: "\<exists>c w'. generate w = Inr (c, w')
      \<and> map (\<lambda>it. getitem it ''order_item_id'') (sample_order_items_list c)
          = map (\<lambda>k. Inr (PInt (9001 + int k))) [0..<length (sample_order_items_list c)]
      \<and> (\<forall>k < length (sample_order_items_list c).
            getitem (sample_order_items_list c ! k) ''order_item_id'' = Inr (PInt (9001 + int k)))
      \<and> distinct (map (\<lambda>it. getitem it ''order_item_id'') (sample_order_items_list c))
      \<and> order_item_id c = 9001 + int (length (sample_order_items_list c))"
    by (intro exI[of _ c] exI[of _ w'] conjI) (fact g m nth dist cnt)+
  have step: "\<forall>order products items k u items' k' u'.
         single_item order products (items, k) u = Inr ((items', k'), u')
         \<longrightarrow> k' = k + 1
             \<and> (\<exists>it. items' = items @ [it] \<and> getitem it ''order_item_id'' = Inr (PInt k))"
    using single_item_step by blast
  from run step show ?thesis by (rule conjI)
qed

text \<open>In the example run the numbering goes on across the boundary between orders 5001
  and 5002.\<close>

theorem order_item_ids_contiguous_example:
  "\<exists>c w'. generate example_world = Inr (c, w')
     \<and> (2 :: nat) < length (sample_order_items_list c)
     \<and> getitem (sample_order_items_list c ! 1) ''order_id'' = Inr (PInt 5001)
     \<and> getitem (sample_order_items_list c ! 2) ''order_id'' = Inr (PInt 5002)
     \<and> getitem (sample_order_items_list c ! 1) ''order_item_id'' = Inr (PInt 9002)
     \<and> getitem (sample_order_items_list c ! 2) ''order_item_id'' = Inr (PInt 9003)
     \<and> order_item_id c = 9081"
proof -
  from order_item_ids_contiguous[of example_world] obtain c w' where
    g: "generate example_world = Inr (c, w')" and
    nth: "\<forall>k < length (sample_order_items_list c).
            getitem (sample_order_items_list c ! k) ''order_item_id'' = Inr (PInt (9001 + int k))"
    and cnt: "order_item_id c = 9001 + int (length (sample_order_items_list c))"
    by blast
  let ?items = "sample_order_items_list c"
  from example_run g have n: "length ?items = 80" and
    t: "take 3 ?items =
         [[(''order_item_id'', PInt 9001), (''order_id'', PInt 5001),
           (''product_id'', PInt 109), (''quantity'', PInt 2), (''price'', PInt 46)],
          [(''order_item_id'', PInt 9002), (''order_id'', PInt 5001),
           (''product_id'', PInt 109), (''quantity'', PInt 2), (''price'', PInt 46)],
          [(''order_item_id'', PInt 9003), (''order_id'', PInt 5002),
           (''product_id'', PInt 110), (''quantity'', PInt 3), (''price'', PInt 46)]]"
    by simp_all
  have i1: "?items ! 1 = take 3 ?items ! 1" and i2: "?items ! 2 = take 3 ?items ! 2"
    by simp_all
  have o1: "getitem (?items ! 1) ''order_id'' = Inr (PInt 5001)"
    and o2: "getitem (?items ! 2) ''order_id'' = Inr (PInt 5002)"
    unfolding i1 i2 t by (simp_all add: getitem_def)
  have l2: "(2 :: nat) < length ?items" and l1: "(1 :: nat) < length ?items"
    using n by simp_all
  from nth l1 have k1: "getitem (?items ! 1) ''order_item_id'' = Inr (PInt 9002)" by fastforce
  from nth l2 have k2: "getitem (?items ! 2) ''order_item_id'' = Inr (PInt 9003)" by fastforce
  from cnt n have "order_item_id c = 9081" by simp
  with g l2 o1 o2 k1 k2 show ?thesis by blast
qed

subsection \<open>What an order item refers to\<close>

lemma in_concat_nth:
  assumes "x \<in> set (concat bs)"
  obtains j where "j < length bs" and "x \<in> set (bs ! j)"
  using assms by (auto simp: in_set_conv_nth[of _ bs])

text \<open>
  Claim C3. In every run, every generated item carries the \<^verbatim>\<open>order_id\<close> of a generated
  order, the \<^verbatim>\<open>product_id\<close> of a generated product together with the price stored in
  that same product record, and a quantity between 1 and 3; the items come in one block
  per order, of 1 to 5 items. Products are drawn with replacement: there is a run in which
  two items of one order carry the same product.
\<close>
theorem items_reference_orders_and_products:
  "(\<exists>c w'. generate w = Inr (c, w')
      \<and> (\<forall>it \<in> set (sample_order_items_list c).
            (\<exists>ord \<in> set (sample_orders_list c). \<exists>oid.
                getitem ord ''order_id'' = Inr oid \<and> getitem it ''order_id'' = Inr oid)
          \<and> (\<exists>p \<in> set (sample_products_list c). \<exists>pid price.
                getitem p ''product_id'' = Inr pid \<and> getitem it ''product_id'' = Inr pid
                \<and> getitem p ''price'' = Inr price \<and> getitem it ''price'' = Inr price)
          \<and> (\<exists>q. getitem it ''quantity'' = Inr (PInt q) \<and> 1 \<le> q \<and> q \<le> 3))
      \<and> (\<exists>blocks.
            sample_order_items_list c = concat blocks
          \<and> length blocks = length (sample_orders_list c)
          \<and> (\<forall>j < length (sample_orders_list c).
                1 \<le> length (blocks ! j) \<and> length (blocks ! j) \<le> 5
                \<and> (\<forall>it \<in> set (blocks ! j).
                      getitem it ''order_id'' = getitem (sample_orders_list c ! j) ''order_id''))))
   \<and> (\<exists>u c w' i j. generate u = Inr (c, w')
         \<and> i < j \<and> j < length (sample_order_items_list c)
         \<and> getitem (sample_order_items_list c ! i) ''order_id''
             = getitem (sample_order_items_list c ! j) ''order_id''
         \<and> (\<exists>pid. getitem (sample_order_items_list c ! i) ''product_id'' = Inr pid
                \<and> getitem (sample_order_items_list c ! j) ''product_id'' = Inr pid))"
proof (rule conjI)
  obtain c w' where g: "generate w = Inr (c, w')" and ok: "run_ok (str_lower w) c"
    by (rule generate_run)
  let ?items = "sample_order_items_list c" and ?orders = "sample_orders_list c"
    and ?products = "sample_products_list c"
  from run_blocks[OF ok] obtain blocks where
    items: "?items = concat blocks" and lb: "length blocks = 29" and lo: "length ?orders = 29"
    and o: "\<And>j. j < 29 \<Longrightarrow> order_ok (5001 + int j) (?orders ! j)"
    and b: "\<And>j. j < 29 \<Longrightarrow> block_ok ?products (?orders ! j) (blocks ! j)"
    by blast
  have each: "\<forall>it \<in> set ?items.
            (\<exists>ord \<in> set ?orders. \<exists>oid.
                getitem ord ''order_id'' = Inr oid \<and> getitem it ''order_id'' = Inr oid)
          \<and> (\<exists>p \<in> set ?products. \<exists>pid price.
                getitem p ''product_id'' = Inr pid \<and> getitem it ''product_id'' = Inr pid
                \<and> getitem p ''price'' = Inr price \<and> getitem it ''price'' = Inr price)
          \<and> (\<exists>q. getitem it ''quantity'' = Inr (PInt q) \<and> 1 \<le> q \<and> q \<le> 3)"
  proof
    fix it assume "it \<in> set ?items"
    then have "it \<in> set (concat blocks)" by (simp only: items)
    then obtain j where j: "j < length blocks" and mem: "it \<in> set (blocks ! j)"
      by (rule in_concat_nth)
    from j lb have j29: "j < 29" by simp
    from b[OF j29] mem obtain k where ik: "item_ok (?orders ! j) ?products k it"
      by (rule block_ok_item)
    have om: "?orders ! j \<in> set ?orders" using j29 lo by simp
    have oid: "getitem (?orders ! j) ''order_id'' = Inr (PInt (5001 + int j))"
      by (rule order_ok_fields(1)[OF o[OF j29]])
    have "getitem it ''order_id'' = Inr (PInt (5001 + int j))"
      using item_ok_fields(2)[OF ik] oid by simp
    with om oid have 1: "\<exists>ord \<in> set ?orders. \<exists>oid.
                getitem ord ''order_id'' = Inr oid \<and> getitem it ''order_id'' = Inr oid"
      by blast
    from 1 item_ok_fields(3)[OF ik] item_ok_fields(4)[OF ik]
    show "(\<exists>ord \<in> set ?orders. \<exists>oid.
                getitem ord ''order_id'' = Inr oid \<and> getitem it ''order_id'' = Inr oid)
          \<and> (\<exists>p \<in> set ?products. \<exists>pid price.
                getitem p ''product_id'' = Inr pid \<and> getitem it ''product_id'' = Inr pid
                \<and> getitem p ''price'' = Inr price \<and> getitem it ''price'' = Inr price)
          \<and> (\<exists>q. getitem it ''quantity'' = Inr (PInt q) \<and> 1 \<le> q \<and> q \<le> 3)"
      by (intro conjI)
  qed
  have blk: "\<forall>j < length ?orders. 1 \<le> length (blocks ! j) \<and> length (blocks ! j) \<le> 5
                \<and> (\<forall>it \<in> set (blocks ! j).
                      getitem it ''order_id'' = getitem (?orders ! j) ''order_id'')"
  proof (intro allI impI conjI ballI)
    fix j :: nat assume "j < length ?orders"
    with lo have j: "j < 29" by simp
    from block_ok_length[OF b[OF j]]
    show "1 \<le> length (blocks ! j)" and "length (blocks ! j) \<le> 5" by simp_all
    fix it assume "it \<in> set (blocks ! j)"
    with b[OF j] obtain k where "item_ok (?orders ! j) ?products k it"
      by (rule block_ok_item)
    then show "getitem it ''order_id'' = getitem (?orders ! j) ''order_id''"
      by (rule item_ok_fields(2))
  qed
  have ex: "\<exists>blocks. ?items = concat blocks \<and> length blocks = length ?orders
          \<and> (\<forall>j < length ?orders. 1 \<le> length (blocks ! j) \<and> length (blocks ! j) \<le> 5
                \<and> (\<forall>it \<in> set (blocks ! j).
                      getitem it ''order_id'' = getitem (?orders ! j) ''order_id''))"
    using items lb lo blk by (intro exI[of _ blocks]) simp
  show "\<exists>c w'. generate w = Inr (c, w')
      \<and> (\<forall>it \<in> set (sample_order_items_list c).
            (\<exists>ord \<in> set (sample_orders_list c). \<exists>oid.
                getitem ord ''order_id'' = Inr oid \<and> getitem it ''order_id'' = Inr oid)
          \<and> (\<exists>p \<in> set (sample_products_list c). \<exists>pid price.
                getitem p ''product_id'' = Inr pid \<and> getitem it ''product_id'' = Inr pid
                \<and> getitem p ''price'' = Inr price \<and> getitem it ''price'' = Inr price)
          \<and> (\<exists>q. getitem it ''quantity'' = Inr (PInt q) \<and> 1 \<le> q \<and> q \<le> 3))
      \<and> (\<exists>blocks.
            sample_order_items_list c = concat blocks
          \<and> length blocks = length (sample_orders_list c)
          \<and> (\<forall>j < length (sample_orders_list c).
                1 \<le> length (blocks ! j) \<and> length (blocks ! j) \<le> 5
                \<and> (\<forall>it \<in> set (blocks ! j).
                      getitem it ''order_id'' = getitem (sample_orders_list c ! j) ''order_id'')))"
    by (intro exI[of _ c] exI[of _ w'] conjI) (fact g each ex)+
next
  obtain c w' where g: "generate example_world = Inr (c, w')"
    by (rule generate_run)
  let ?items = "sample_order_items_list c"
  from example_run g have n: "length ?items = 80" and
    t: "take 3 ?items =
         [[(''order_item_id'', PInt 9001), (''order_id'', PInt 5001),
           (''product_id'', PInt 109), (''quantity'', PInt 2), (''price'', PInt 46)],
          [(''order_item_id'', PInt 9002), (''order_id'', PInt 5001),
           (''product_id'', PInt 109), (''quantity'', PInt 2), (''price'', PInt 46)],
          [(''order_item_id'', PInt 9003), (''order_id'', PInt 5002),
           (''product_id'', PInt 110), (''quantity'', PInt 3), (''price'', PInt 46)]]"
    by simp_all
  have i0: "?items ! 0 = take 3 ?items ! 0" and i1: "?items ! 1 = take 3 ?items ! 1"
    by simp_all
  have same: "getitem (?items ! 0) ''order_id'' = getitem (?items ! 1) ''order_id''"
    and p0: "getitem (?items ! 0) ''product_id'' = Inr (PInt 109)"
    and p1: "getitem (?items ! 1) ''product_id'' = Inr (PInt 109)"
    unfolding i0 i1 t by (simp_all add: getitem_def)
  have "(0 :: nat) < 1" and "1 < length ?items" using n by simp_all
  with g same p0 p1
  show "\<exists>u c w' i j. generate u = Inr (c, w')
         \<and> i < j \<and> j < length (sample_order_items_list c)
         \<and> getitem (sample_order_items_list c ! i) ''order_id''
             = getitem (sample_order_items_list c ! j) ''order_id''
         \<and> (\<exists>pid. getitem (sample_order_items_list c ! i) ''product_id'' = Inr pid
                \<and> getitem (sample_order_items_list c ! j) ''product_id'' = Inr pid)"
    by blast
qed

text \<open>The first item of the example run: order 5001, product 109 at its price 46,
  quantity 2.\<close>

theorem items_reference_orders_and_products_example:
  "\<exists>c w'. generate example_world = Inr (c, w')
     \<and> [(''order_item_id'', PInt 9001), (''order_id'', PInt 5001),
         (''product_id'', PInt 109), (''quantity'', PInt 2), (''price'', PInt 46)]
          \<in> set (sample_order_items_list c)
     \<and> (\<exists>ord \<in> set (sample_orders_list c). getitem ord ''order_id'' = Inr (PInt 5001))
     \<and> (\<exists>p \<in> set (sample_products_list c).
           getitem p ''product_id'' = Inr (PInt 109) \<and> getitem p ''price'' = Inr (PInt 46))
     \<and> (1 :: int) \<le> 2 \<and> (2 :: int) \<le> 3"
proof -
  let ?it = "[(''order_item_id'', PInt 9001), (''order_id'', PInt 5001),
         (''product_id'', PInt 109), (''quantity'', PInt 2), (''price'', PInt 46)]"
  from items_reference_orders_and_products[of example_world] obtain c w' where
    g: "generate example_world = Inr (c, w')" and
    each: "\<forall>it \<in> set (sample_order_items_list c).
            (\<exists>ord \<in> set (sample_orders_list c). \<exists>oid.
                getitem ord ''order_id'' = Inr oid \<and> getitem it ''order_id'' = Inr oid)
          \<and> (\<exists>p \<in> set (sample_products_list c). \<exists>pid price.
                getitem p ''product_id'' = Inr pid \<and> getitem it ''product_id'' = Inr pid
                \<and> getitem p ''price'' = Inr price \<and> getitem it ''price'' = Inr price)
          \<and> (\<exists>q. getitem it ''quantity'' = Inr (PInt q) \<and> 1 \<le> q \<and> q \<le> 3)"
    by blast
  from example_run g have
    t: "take 3 (sample_order_items_list c) =
         [?it,
          [(''order_item_id'', PInt 9002), (''order_id'', PInt 5001),
           (''product_id'', PInt 109), (''quantity'', PInt 2), (''price'', PInt 46)],
          [(''order_item_id'', PInt 9003), (''order_id'', PInt 5002),
           (''product_id'', PInt 110), (''quantity'', PInt 3), (''price'', PInt 46)]]"
    by simp
  have mem: "?it \<in> set (sample_order_items_list c)"
    by (rule example_run_take[OF t]) simp
  have f: "getitem ?it ''order_id'' = Inr (PInt 5001)"
    "getitem ?it ''product_id'' = Inr (PInt 109)"
    "getitem ?it ''price'' = Inr (PInt 46)"
    "getitem ?it ''quantity'' = Inr (PInt 2)"
    by (simp_all add: getitem_def)
  from each mem obtain ord oid where
    "ord \<in> set (sample_orders_list c)" "getitem ord ''order_id'' = Inr oid"
    "getitem ?it ''order_id'' = Inr oid"
    by blast
  with f(1) have 1: "\<exists>ord \<in> set (sample_orders_list c). getitem ord ''order_id'' = Inr (PInt 5001)"
    by auto
  from each mem obtain p pid price where
    "p \<in> set (sample_products_list c)" "getitem p ''product_id'' = Inr pid"
    "getitem ?it ''product_id'' = Inr pid" "getitem p ''price'' = Inr price"
    "getitem ?it ''price'' = Inr price"
    by blast
  with f(2,3) have 2: "\<exists>p \<in> set (sample_products_list c).
           getitem p ''product_id'' = Inr (PInt 109) \<and> getitem p ''price'' = Inr (PInt 46)"
    by auto
  from each mem obtain q where "getitem ?it ''quantity'' = Inr (PInt q)" "1 \<le> q" "q \<le> 3"
    by blast
  with f(4) have 3: "(1 :: int) \<le> 2" "(2 :: int) \<le> 3" by auto
  from g mem 1 2 3 show ?thesis by blast
qed

subsection \<open>Items are grouped by order\<close>

lemma runs_of_simps:
  "runs_of [] ns = []" "runs_of xs [] = []"
  "runs_of (x # xs) (n # ns) = replicate n x @ runs_of xs ns"
  by (simp_all add: runs_of_def)

lemma set_runs_of: "set (runs_of xs ns) \<subseteq> set xs"
proof (induction xs arbitrary: ns)
  case Nil
  then show ?case by (simp add: runs_of_simps)
next
  case (Cons x xs)
  show ?case
  proof (cases ns)
    case Nil
    then show ?thesis by (simp add: runs_of_simps)
  next
    case (Cons n ns')
    with Cons.IH[of ns'] show ?thesis by (auto simp: runs_of_simps)
  qed
qed

lemma sorted_runs_of:
  fixes xs :: "int list"
  assumes "sorted xs"
  shows "sorted (runs_of xs ns)"
  using assms
proof (induction xs arbitrary: ns)
  case Nil
  then show ?case by (simp add: runs_of_simps)
next
  case (Cons x xs)
  show ?case
  proof (cases ns)
    case Nil
    then show ?thesis by (simp add: runs_of_simps)
  next
    case ns: (Cons n ns')
    from Cons.prems have s: "sorted xs" and le: "\<forall>y \<in> set xs. x \<le> y" by auto
    have "\<forall>y \<in> set (runs_of xs ns'). x \<le> y"
      using le set_runs_of[of xs ns'] by blast
    with Cons.IH[OF s, of ns'] show ?thesis
      by (auto simp: ns runs_of_simps sorted_append)
  qed
qed

lemma column_of_blocks:
  assumes "length bs = length xs"
    and "\<forall>j < length xs. \<forall>it \<in> set (bs ! j). f it = g (xs ! j)"
  shows "map f (concat bs) = map g (runs_of xs (map length bs))"
  using assms
proof (induction bs arbitrary: xs)
  case Nil
  then show ?case by (simp add: runs_of_simps)
next
  case (Cons b bs)
  then obtain x xs' where xs: "xs = x # xs'" by (cases xs) auto
  from Cons.prems(2) have hd: "\<forall>it \<in> set b. f it = g x"
    unfolding xs by fastforce
  from Cons.prems(2) have tl: "\<forall>j < length xs'. \<forall>it \<in> set (bs ! j). f it = g (xs' ! j)"
    unfolding xs by fastforce
  from Cons.prems(1) have len: "length bs = length xs'" by (simp add: xs)
  have "map f b = replicate (length b) (g x)"
    using hd by (simp add: map_replicate_const[symmetric] cong: map_cong)
  with Cons.IH[OF len tl] show ?case
    by (simp add: xs runs_of_simps)
qed

lemma sorted_contiguous:
  fixes ids :: "int list"
  assumes "sorted ids" and "i \<le> j" and "j \<le> k" and "k < length ids" and "ids ! i = ids ! k"
  shows "ids ! j = ids ! i"
proof -
  from assms(3,4) have j: "j < length ids" by simp
  have "ids ! i \<le> ids ! j" by (rule sorted_nth_mono[OF assms(1) assms(2) j])
  moreover have "ids ! j \<le> ids ! k" by (rule sorted_nth_mono[OF assms(1) assms(3) assms(4)])
  ultimately show ?thesis using assms(5) by simp
qed


text \<open>
  Claim C10. In every run the \<^verbatim>\<open>order_id\<close> column of the item list consists of 29 runs:
  5001 repeated, then 5002 repeated, and so on up to 5029, each between one and five
  times. So the items of one order are contiguous, the blocks come in increasing order
  of \<^verbatim>\<open>order_id\<close>, and the column is sorted.
\<close>
theorem items_grouped_by_order:
  "\<exists>c w'. generate w = Inr (c, w')
     \<and> (\<exists>ids counts.
           map (\<lambda>it. getitem it ''order_id'') (sample_order_items_list c)
             = map (\<lambda>i. Inr (PInt i)) ids
         \<and> length counts = 29
         \<and> (\<forall>n \<in> set counts. 1 \<le> n \<and> n \<le> 5)
         \<and> ids = runs_of [5001..5029] counts
         \<and> sorted ids
         \<and> (\<forall>i j k. i \<le> j \<and> j \<le> k \<and> k < length ids \<and> ids ! i = ids ! k
               \<longrightarrow> ids ! j = ids ! i))"
proof -
  obtain c w' where g: "generate w = Inr (c, w')" and ok: "run_ok (str_lower w) c"
    by (rule generate_run)
  let ?items = "sample_order_items_list c" and ?orders = "sample_orders_list c"
    and ?products = "sample_products_list c"
  from run_blocks[OF ok] obtain blocks where
    items: "?items = concat blocks" and lb: "length blocks = 29" and lo: "length ?orders = 29"
    and o: "\<And>j. j < 29 \<Longrightarrow> order_ok (5001 + int j) (?orders ! j)"
    and b: "\<And>j. j < 29 \<Longrightarrow> block_ok ?products (?orders ! j) (blocks ! j)"
    by blast
  define counts where "counts = map length blocks"
  define ids where "ids = runs_of (py_range 5001 5030) counts"
  have lr: "length (py_range 5001 5030) = 29" by (simp add: length_py_range)
  have col: "\<forall>j < length (py_range 5001 5030). \<forall>it \<in> set (blocks ! j).
      getitem it ''order_id'' = Inr (PInt (py_range 5001 5030 ! j))"
  proof (intro allI impI ballI)
    fix j it assume "j < length (py_range 5001 5030)" and mem: "it \<in> set (blocks ! j)"
    then have j: "j < 29" by (simp add: lr)
    from b[OF j] mem obtain k where "item_ok (?orders ! j) ?products k it"
      by (rule block_ok_item)
    then have "getitem it ''order_id'' = getitem (?orders ! j) ''order_id''"
      by (rule item_ok_fields(2))
    also have "\<dots> = Inr (PInt (5001 + int j))"
      by (rule order_ok_fields(1)[OF o[OF j]])
    also have "5001 + int j = py_range 5001 5030 ! j"
      using j by (simp add: py_range_nth)
    finally show "getitem it ''order_id'' = Inr (PInt (py_range 5001 5030 ! j))" .
  qed
  have m: "map (\<lambda>it. getitem it ''order_id'') ?items = map (\<lambda>i. Inr (PInt i)) ids"
    unfolding items ids_def counts_def
    by (rule column_of_blocks) (simp_all add: lb lr col)
  have lc: "length counts = 29" by (simp add: counts_def lb)
  have rng: "\<forall>n \<in> set counts. 1 \<le> n \<and> n \<le> 5"
  proof
    fix n assume "n \<in> set counts"
    then obtain j where "j < 29" "n = length (blocks ! j)"
      by (auto simp: counts_def lb in_set_conv_nth)
    with block_ok_length[OF b] show "1 \<le> n \<and> n \<le> 5" by simp
  qed
  have eq: "ids = runs_of [5001..5029] counts"
    by (simp add: ids_def py_range_upto)
  have "sorted (py_range 5001 5030)" by (simp add: py_range_def)
  then have srt: "sorted ids" unfolding ids_def by (rule sorted_runs_of)
  have contig: "\<forall>i j k. i \<le> j \<and> j \<le> k \<and> k < length ids \<and> ids ! i = ids ! k
               \<longrightarrow> ids ! j = ids ! i"
    using sorted_contiguous[OF srt] by blast
  from m lc rng eq srt contig have "\<exists>ids counts.
           map (\<lambda>it. getitem it ''order_id'') ?items = map (\<lambda>i. Inr (PInt i)) ids
         \<and> length counts = 29
         \<and> (\<forall>n \<in> set counts. 1 \<le> n \<and> n \<le> 5)
         \<and> ids = runs_of [5001..5029] counts
         \<and> sorted ids
         \<and> (\<forall>i j k. i \<le> j \<and> j \<le> k \<and> k < length ids \<and> ids ! i = ids ! k
               \<longrightarrow> ids ! j = ids ! i)"
    by blast
  with g show ?thesis by blast
qed


text \<open>In the example run the items at indices 2 to 5 all belong to order 5002.\<close>

theorem items_grouped_by_order_example:
  "\<exists>c w'. generate example_world = Inr (c, w')
     \<and> map (\<lambda>it. getitem it ''order_id'') (take 6 (sample_order_items_list c)) =
         [Inr (PInt 5001), Inr (PInt 5001), Inr (PInt 5002), Inr (PInt 5002),
          Inr (PInt 5002), Inr (PInt 5002)]
     \<and> (\<exists>ids. map (\<lambda>it. getitem it ''order_id'') (sample_order_items_list c)
                 = map (\<lambda>i. Inr (PInt i)) ids
           \<and> (2 :: nat) \<le> 3 \<and> (3 :: nat) \<le> 5 \<and> 5 < length ids
           \<and> ids ! 2 = 5002 \<and> ids ! 5 = 5002 \<and> ids ! 3 = 5002 \<and> sorted ids)"
proof -
  from items_grouped_by_order[of example_world] obtain c w' ids counts where
    g: "generate example_world = Inr (c, w')" and
    m: "map (\<lambda>it. getitem it ''order_id'') (sample_order_items_list c)
          = map (\<lambda>i. Inr (PInt i)) ids" and
    srt: "sorted ids" and
    contig: "\<forall>i j k. i \<le> j \<and> j \<le> k \<and> k < length ids \<and> ids ! i = ids ! k
               \<longrightarrow> ids ! j = ids ! i"
    by blast
  let ?items = "sample_order_items_list c"
  let ?f = "\<lambda>it. getitem it ''order_id''"
  from example_run g have n: "length ?items = 80" and
    six: "map ?f (take 6 ?items) =
         [Inr (PInt 5001), Inr (PInt 5001), Inr (PInt 5002), Inr (PInt 5002),
          Inr (PInt 5002), Inr (PInt 5002)]"
    by simp_all
  from m have "length ?items = length ids" by (metis length_map)
  with n have li: "length ids = 80" by simp
  have col: "Inr (PInt (ids ! k)) = map ?f (take 6 ?items) ! k" if "k < 6" for k
  proof -
    have "Inr (PInt (ids ! k)) = map (\<lambda>i. Inr (PInt i) :: error + pyval) ids ! k"
      using that li by simp
    also have "\<dots> = map ?f ?items ! k" by (simp only: m)
    also have "\<dots> = map ?f (take 6 ?items) ! k"
      using that n by (simp add: take_map[symmetric])
    finally show ?thesis .
  qed
  have i2: "ids ! 2 = 5002" using col[of 2] unfolding six by simp
  have i5: "ids ! 5 = 5002" using col[of 5] unfolding six by simp
  have h: "(2 :: nat) \<le> 3" "(3 :: nat) \<le> 5" "5 < length ids" "ids ! 2 = ids ! 5"
    using li i2 i5 by simp_all
  from contig h have "ids ! 3 = ids ! 2" by blast
  with i2 have i3: "ids ! 3 = 5002" by simp
  from m h(1-3) i2 i5 i3 srt have ex: "\<exists>ids. map ?f ?items = map (\<lambda>i. Inr (PInt i)) ids
           \<and> (2 :: nat) \<le> 3 \<and> (3 :: nat) \<le> 5 \<and> 5 < length ids
           \<and> ids ! 2 = 5002 \<and> ids ! 5 = 5002 \<and> ids ! 3 = 5002 \<and> sorted ids"
    by (intro exI[of _ ids] conjI)
  show ?thesis
    by (intro exI[of _ c] exI[of _ w'] conjI) (fact g six ex)+
qed

subsection \<open>Customer e-mail addresses\<close>

lemma replace_space_filter: "replace s CHR '' '' '''' = filter (\<lambda>ch. ch \<noteq> CHR '' '') s"
  by (induction s) (simp_all add: replace_def)

lemma customer_ok_email:
  assumes "customer_ok lw i c"
  shows "\<exists>name domain.
           getitem c ''name'' = Inr (PStr name)
         \<and> domain \<in> {''hotmail.com'', ''gmail.com'', ''coldmail.com''}
         \<and> getitem c ''email''
             = Inr (PStr (lw (filter (\<lambda>ch. ch \<noteq> CHR '' '') name) @ ''@'' @ domain))"
  using assms by (auto simp: customer_ok_def getitem_def replace_space_filter)

text \<open>
  Claim C7. In every run, every customer's \<^verbatim>\<open>email\<close> is \<^verbatim>\<open>str.lower\<close> applied to the
  customer's \<^verbatim>\<open>name\<close> without its space characters (first the spaces are removed, then
  the rest is lower-cased, the order of the code and of the specification), followed by
  \<^verbatim>\<open>@\<close> and one of the three domains \<^verbatim>\<open>hotmail.com\<close>, \<^verbatim>\<open>gmail.com\<close>, \<^verbatim>\<open>coldmail.com\<close>.
  Where \<^verbatim>\<open>str.lower\<close> maps the ASCII strings as Python's does (A to Z go to a to z, every
  other character stays) and the name is ASCII, the part before \<^verbatim>\<open>@\<close> is the name without
  its spaces with each capital letter replaced by its small letter.
\<close>

theorem email_from_name:
  "\<exists>c w'. generate w = Inr (c, w')
     \<and> (\<forall>cust \<in> set (sample_customers_list c).
           \<exists>name domain.
             getitem cust ''name'' = Inr (PStr name)
           \<and> domain \<in> {''hotmail.com'', ''gmail.com'', ''coldmail.com''}
           \<and> getitem cust ''email''
               = Inr (PStr (str_lower w (filter (\<lambda>ch. ch \<noteq> CHR '' '') name) @ ''@'' @ domain))
           \<and> ((\<forall>ch \<in> set name. (of_char ch :: nat) < 128)
                \<and> (\<forall>s. (\<forall>ch \<in> set s. (of_char ch :: nat) < 128)
                       \<longrightarrow> str_lower w s
                           = map (\<lambda>ch. if 65 \<le> (of_char ch :: nat) \<and> (of_char ch :: nat) \<le> 90
                                       then char_of ((of_char ch :: nat) + 32) else ch) s)
                \<longrightarrow> getitem cust ''email''
                    = Inr (PStr (map (\<lambda>ch. if 65 \<le> (of_char ch :: nat) \<and> (of_char ch :: nat) \<le> 90
                                            then char_of ((of_char ch :: nat) + 32) else ch)
                                   (filter (\<lambda>ch. ch \<noteq> CHR '' '') name)
                                 @ ''@'' @ domain))))"
proof -
  obtain c w' where g: "generate w = Inr (c, w')" and ok: "run_ok (str_lower w) c"
    by (rule generate_run)
  from ok have cs: "list_all2 (customer_ok (str_lower w)) (py_range 1 25) (sample_customers_list c)"
    by (simp add: run_ok_def)
  let ?lo = "\<lambda>ch. if 65 \<le> (of_char ch :: nat) \<and> (of_char ch :: nat) \<le> 90
                 then char_of ((of_char ch :: nat) + 32) else ch"
  let ?nosp = "filter (\<lambda>ch. ch \<noteq> CHR '' '')"
  have "\<forall>cust \<in> set (sample_customers_list c).
           \<exists>name domain.
             getitem cust ''name'' = Inr (PStr name)
           \<and> domain \<in> {''hotmail.com'', ''gmail.com'', ''coldmail.com''}
           \<and> getitem cust ''email'' = Inr (PStr (str_lower w (?nosp name) @ ''@'' @ domain))
           \<and> ((\<forall>ch \<in> set name. (of_char ch :: nat) < 128)
                \<and> (\<forall>s. (\<forall>ch \<in> set s. (of_char ch :: nat) < 128) \<longrightarrow> str_lower w s = map ?lo s)
                \<longrightarrow> getitem cust ''email'' = Inr (PStr (map ?lo (?nosp name) @ ''@'' @ domain)))"
  proof
    fix cust assume "cust \<in> set (sample_customers_list c)"
    with cs obtain i where "customer_ok (str_lower w) i cust" by (rule list_all2_rightE)
    from customer_ok_email[OF this] obtain name domain where
      nm: "getitem cust ''name'' = Inr (PStr name)" and
      dom: "domain \<in> {''hotmail.com'', ''gmail.com'', ''coldmail.com''}" and
      em: "getitem cust ''email'' = Inr (PStr (str_lower w (?nosp name) @ ''@'' @ domain))"
      by blast
    have "getitem cust ''email'' = Inr (PStr (map ?lo (?nosp name) @ ''@'' @ domain))"
      if asc: "\<forall>ch \<in> set name. (of_char ch :: nat) < 128"
        and py: "\<forall>s. (\<forall>ch \<in> set s. (of_char ch :: nat) < 128) \<longrightarrow> str_lower w s = map ?lo s"
    proof -
      from asc have "\<forall>ch \<in> set (?nosp name). (of_char ch :: nat) < 128" by simp
      with py have "str_lower w (?nosp name) = map ?lo (?nosp name)" by blast
      with em show ?thesis by simp
    qed
    with nm dom em
    show "\<exists>name domain.
             getitem cust ''name'' = Inr (PStr name)
           \<and> domain \<in> {''hotmail.com'', ''gmail.com'', ''coldmail.com''}
           \<and> getitem cust ''email'' = Inr (PStr (str_lower w (?nosp name) @ ''@'' @ domain))
           \<and> ((\<forall>ch \<in> set name. (of_char ch :: nat) < 128)
                \<and> (\<forall>s. (\<forall>ch \<in> set s. (of_char ch :: nat) < 128) \<longrightarrow> str_lower w s = map ?lo s)
                \<longrightarrow> getitem cust ''email'' = Inr (PStr (map ?lo (?nosp name) @ ''@'' @ domain)))"
      by blast
  qed
  with g show ?thesis by blast
qed

text \<open>The first two customers of the example run: \<^verbatim>\<open>A b\<close> gives \<^verbatim>\<open>ab@hotmail.com\<close> and
  \<^verbatim>\<open>Zoe Q Day\<close> gives \<^verbatim>\<open>zoeqday@hotmail.com\<close>.\<close>

theorem email_from_name_example:
  "\<exists>c w'. generate example_world = Inr (c, w')
     \<and> [(''customer_id'', PInt 1), (''name'', PStr ''A b''),
         (''email'', PStr ''ab@hotmail.com''),
         (''address'', PDict [(''street'', PStr ''111 A b''), (''city'', PStr ''A b''),
                              (''state'', PStr ''A b'')])] \<in> set (sample_customers_list c)
     \<and> [(''customer_id'', PInt 2), (''name'', PStr ''Zoe Q Day''),
         (''email'', PStr ''zoeqday@hotmail.com''),
         (''address'', PDict [(''street'', PStr ''111 A b''), (''city'', PStr ''A b''),
                              (''state'', PStr ''A b'')])] \<in> set (sample_customers_list c)
     \<and> (\<exists>domain. str_lower example_world (filter (\<lambda>ch. ch \<noteq> CHR '' '') ''A b'') @ ''@'' @ domain
                    = ''ab@hotmail.com'')
     \<and> (\<exists>domain. str_lower example_world (filter (\<lambda>ch. ch \<noteq> CHR '' '') ''Zoe Q Day'') @ ''@'' @ domain
                    = ''zoeqday@hotmail.com'')
     \<and> (\<exists>domain. map (\<lambda>ch. if 65 \<le> (of_char ch :: nat) \<and> (of_char ch :: nat) \<le> 90
                            then char_of ((of_char ch :: nat) + 32) else ch)
                   (filter (\<lambda>ch. ch \<noteq> CHR '' '') ''Zoe Q Day'') @ ''@'' @ domain
                    = ''zoeqday@hotmail.com'')"
proof -
  let ?c1 = "[(''customer_id'', PInt 1), (''name'', PStr ''A b''),
         (''email'', PStr ''ab@hotmail.com''),
         (''address'', PDict [(''street'', PStr ''111 A b''), (''city'', PStr ''A b''),
                              (''state'', PStr ''A b'')])]"
  let ?c2 = "[(''customer_id'', PInt 2), (''name'', PStr ''Zoe Q Day''),
         (''email'', PStr ''zoeqday@hotmail.com''),
         (''address'', PDict [(''street'', PStr ''111 A b''), (''city'', PStr ''A b''),
                              (''state'', PStr ''A b'')])]"
  let ?lo = "\<lambda>ch. if 65 \<le> (of_char ch :: nat) \<and> (of_char ch :: nat) \<le> 90
                 then char_of ((of_char ch :: nat) + 32) else ch"
  let ?nosp = "filter (\<lambda>ch. ch \<noteq> CHR '' '')"
  from email_from_name[of example_world] obtain c w' where
    g: "generate example_world = Inr (c, w')" and
    all: "\<forall>cust \<in> set (sample_customers_list c).
           \<exists>name domain.
             getitem cust ''name'' = Inr (PStr name)
           \<and> domain \<in> {''hotmail.com'', ''gmail.com'', ''coldmail.com''}
           \<and> getitem cust ''email''
               = Inr (PStr (str_lower example_world (?nosp name) @ ''@'' @ domain))
           \<and> ((\<forall>ch \<in> set name. (of_char ch :: nat) < 128)
                \<and> (\<forall>s. (\<forall>ch \<in> set s. (of_char ch :: nat) < 128)
                       \<longrightarrow> str_lower example_world s = map ?lo s)
                \<longrightarrow> getitem cust ''email'' = Inr (PStr (map ?lo (?nosp name) @ ''@'' @ domain)))"
    by (elim exE conjE)
  from example_run g have t: "take 2 (sample_customers_list c) = [?c1, ?c2]" by simp
  have m1: "?c1 \<in> set (sample_customers_list c)" and m2: "?c2 \<in> set (sample_customers_list c)"
    by (rule example_run_take[OF t], simp)+
  have py: "\<forall>s. (\<forall>ch \<in> set s. (of_char ch :: nat) < 128) \<longrightarrow> str_lower example_world s = map ?lo s"
    by (simp add: example_world_def ascii_lower_def ascii_lower_char_def Let_def)
  have asc: "\<forall>ch \<in> set ''Zoe Q Day''. (of_char ch :: nat) < 128" by simp
  from bspec[OF all m1] obtain n1 d1 where
    nm1: "getitem ?c1 ''name'' = Inr (PStr n1)" and
    em1: "getitem ?c1 ''email'' = Inr (PStr (str_lower example_world (?nosp n1) @ ''@'' @ d1))"
    by (elim exE conjE)
  from nm1 have n1: "n1 = ''A b''" by (simp add: getitem_def)
  have "getitem ?c1 ''email'' = Inr (PStr ''ab@hotmail.com'')" by (simp add: getitem_def)
  with em1 have e1: "str_lower example_world (?nosp ''A b'') @ ''@'' @ d1 = ''ab@hotmail.com''"
    unfolding n1 by (simp only: sum.inject pyval.inject)
  from bspec[OF all m2] obtain n2 d2 where
    nm2: "getitem ?c2 ''name'' = Inr (PStr n2)" and
    em2: "getitem ?c2 ''email'' = Inr (PStr (str_lower example_world (?nosp n2) @ ''@'' @ d2))" and
    imp2: "(\<forall>ch \<in> set n2. (of_char ch :: nat) < 128)
                \<and> (\<forall>s. (\<forall>ch \<in> set s. (of_char ch :: nat) < 128)
                       \<longrightarrow> str_lower example_world s = map ?lo s)
                \<longrightarrow> getitem ?c2 ''email'' = Inr (PStr (map ?lo (?nosp n2) @ ''@'' @ d2))"
    by (elim exE conjE)
  from nm2 have n2: "n2 = ''Zoe Q Day''" by (simp add: getitem_def)
  have v2: "getitem ?c2 ''email'' = Inr (PStr ''zoeqday@hotmail.com'')" by (simp add: getitem_def)
  with em2 have e2: "str_lower example_world (?nosp ''Zoe Q Day'') @ ''@'' @ d2 = ''zoeqday@hotmail.com''"
    unfolding n2 by (simp only: sum.inject pyval.inject)
  from asc py have "(\<forall>ch \<in> set ''Zoe Q Day''. (of_char ch :: nat) < 128)
                \<and> (\<forall>s. (\<forall>ch \<in> set s. (of_char ch :: nat) < 128)
                       \<longrightarrow> str_lower example_world s = map ?lo s)"
    by (rule conjI)
  with imp2 have "getitem ?c2 ''email'' = Inr (PStr (map ?lo (?nosp ''Zoe Q Day'') @ ''@'' @ d2))"
    unfolding n2 by (rule mp)
  with v2 have e3: "map ?lo (?nosp ''Zoe Q Day'') @ ''@'' @ d2 = ''zoeqday@hotmail.com''"
    by (simp only: sum.inject pyval.inject)
  have x1: "\<exists>domain. str_lower example_world (?nosp ''A b'') @ ''@'' @ domain = ''ab@hotmail.com''"
    by (intro exI[of _ d1]) (fact e1)
  have x2: "\<exists>domain. str_lower example_world (?nosp ''Zoe Q Day'') @ ''@'' @ domain
      = ''zoeqday@hotmail.com''"
    by (intro exI[of _ d2]) (fact e2)
  have x3: "\<exists>domain. map ?lo (?nosp ''Zoe Q Day'') @ ''@'' @ domain = ''zoeqday@hotmail.com''"
    by (intro exI[of _ d2]) (fact e3)
  show ?thesis
    by (intro exI[of _ c] exI[of _ w'] conjI) (fact g m1 m2 x1 x2 x3)+
qed

section \<open>The calendar\<close>

text \<open>Every day ordinal from 1 on is split into a year, a month and a day in range, and
  \<open>ymd2ord\<close> leads back from them to the ordinal.\<close>

lemma month_day_common: "list_all (month_day_ok False) [0..364]"
  by code_simp

lemma month_day_leap: "list_all (month_day_ok True) [0..365]"
  by code_simp


lemma month_day_okD:
  assumes "0 \<le> n" and "n \<le> 364"
  shows "month_day_ok L n"
proof (cases L)
  case True
  from assms have "n \<in> set [0..365]" by simp
  with month_day_leap have "month_day_ok True n" by (simp only: list_all_iff)
  with True show ?thesis by simp
next
  case False
  from assms have "n \<in> set [0..364]" by simp
  with month_day_common have "month_day_ok False n" by (simp only: list_all_iff)
  with False show ?thesis by simp
qed

lemma div_mod_decomp:
  fixes q r k :: int
  assumes "0 \<le> r" and "r < k"
  shows "(k * q + r) div k = q" and "(k * q + r) mod k = r"
  using assms by (simp_all add: div_pos_pos_trivial mod_pos_pos_trivial)

lemma year_divs:
  fixes a b c d :: int
  assumes "0 \<le> b" "b \<le> 3" "0 \<le> c" "c \<le> 24" "0 \<le> d" "d \<le> 3"
  shows "(400 * a + 100 * b + 4 * c + d) div 4 = 100 * a + 25 * b + c"
    and "(400 * a + 100 * b + 4 * c + d) div 100 = 4 * a + b"
    and "(400 * a + 100 * b + 4 * c + d) div 400 = a"
    and "(400 * a + 100 * b + 4 * c + d) mod 4 = d"
    and "(400 * a + 100 * b + 4 * c + d) mod 100 = 4 * c + d"
    and "(400 * a + 100 * b + 4 * c + d) mod 400 = 100 * b + 4 * c + d"
proof -
  have e4: "400 * a + 100 * b + 4 * c + d = 4 * (100 * a + 25 * b + c) + d" by simp
  have e100: "400 * a + 100 * b + 4 * c + d = 100 * (4 * a + b) + (4 * c + d)" by simp
  have e400: "400 * a + 100 * b + 4 * c + d = 400 * a + (100 * b + 4 * c + d)" by simp
  have r4: "0 \<le> d" "d < 4" using assms by linarith+
  have r100: "0 \<le> 4 * c + d" "4 * c + d < 100" using assms by linarith+
  have r400: "0 \<le> 100 * b + 4 * c + d" "100 * b + 4 * c + d < 400" using assms by linarith+
  show "(400 * a + 100 * b + 4 * c + d) div 4 = 100 * a + 25 * b + c"
    unfolding e4 by (rule div_mod_decomp(1)[OF r4])
  show "(400 * a + 100 * b + 4 * c + d) div 100 = 4 * a + b"
    unfolding e100 by (rule div_mod_decomp(1)[OF r100])
  show "(400 * a + 100 * b + 4 * c + d) div 400 = a"
    unfolding e400 by (rule div_mod_decomp(1)[OF r400])
  show "(400 * a + 100 * b + 4 * c + d) mod 4 = d"
    unfolding e4 by (rule div_mod_decomp(2)[OF r4])
  show "(400 * a + 100 * b + 4 * c + d) mod 100 = 4 * c + d"
    unfolding e100 by (rule div_mod_decomp(2)[OF r100])
  show "(400 * a + 100 * b + 4 * c + d) mod 400 = 100 * b + 4 * c + d"
    unfolding e400 by (rule div_mod_decomp(2)[OF r400])
qed


lemma days_before_year_decomp:
  fixes a b c d :: int
  assumes "0 \<le> b" "b \<le> 3" "0 \<le> c" "c \<le> 24" "0 \<le> d" "d \<le> 3"
  shows "days_before_year (400 * a + 100 * b + 4 * c + d + 1)
         = 146097 * a + 36524 * b + 1461 * c + 365 * d"
  by (simp add: days_before_year_def Let_def year_divs(1-3)[OF assms])

lemma year_mods_shape:
  fixes Y a b c d :: int
  assumes "Y = 400 * a + 100 * b + 4 * c + d"
    and "0 \<le> b" "b \<le> 3" "0 \<le> c" "c \<le> 24" "0 \<le> d" "d \<le> 3"
  shows "Y mod 4 = d" and "Y mod 100 = 4 * c + d" and "Y mod 400 = 100 * b + 4 * c + d"
  unfolding assms(1) by (rule year_divs(4-6)[OF assms(2-7)])+

lemma is_leap_decomp:
  fixes a b c d :: int
  assumes "0 \<le> b" "b \<le> 3" "0 \<le> c" "c \<le> 24" "0 \<le> d" "d \<le> 3"
  shows "is_leap (400 * a + 100 * b + 4 * c + d + 1) \<longleftrightarrow> d = 3 \<and> (c \<noteq> 24 \<or> b = 3)"
proof -
  let ?Y = "400 * a + 100 * b + 4 * c + d + 1"
  consider "d \<le> 2" | "d = 3" "c \<le> 23" | "d = 3" "c = 24" "b \<le> 2" | "d = 3" "c = 24" "b = 3"
    using assms by linarith
  then show ?thesis
  proof cases
    case 1
    have "?Y mod 4 = d + 1"
      by (rule year_mods_shape(1)[of _ a b c]) (use assms 1 in simp_all)
    with assms 1 show ?thesis by (simp add: is_leap_def)
  next
    case 2
    have m4: "?Y mod 4 = 0"
      by (rule year_mods_shape(1)[of _ a b "c + 1"]) (use assms 2 in simp_all)
    have m100: "?Y mod 100 = 4 * (c + 1) + 0"
      by (rule year_mods_shape(2)[of _ a b "c + 1"]) (use assms 2 in simp_all)
    from m4 m100 assms 2 show ?thesis by (simp add: is_leap_def)
  next
    case 3
    have m4: "?Y mod 4 = 0"
      by (rule year_mods_shape(1)[of _ a "b + 1" 0]) (use assms 3 in simp_all)
    have m100: "?Y mod 100 = 4 * 0 + 0"
      by (rule year_mods_shape(2)[of _ a "b + 1" 0]) (use assms 3 in simp_all)
    have m400: "?Y mod 400 = 100 * (b + 1) + 4 * 0 + 0"
      by (rule year_mods_shape(3)[of _ a "b + 1" 0]) (use assms 3 in simp_all)
    from m4 m100 m400 assms 3 show ?thesis by (simp add: is_leap_def)
  next
    case 4
    have m4: "?Y mod 4 = 0"
      by (rule year_mods_shape(1)[of _ "a + 1" 0 0]) (use assms 4 in simp_all)
    have m400: "?Y mod 400 = 100 * 0 + 4 * 0 + 0"
      by (rule year_mods_shape(3)[of _ "a + 1" 0 0]) (use assms 4 in simp_all)
    from m4 m400 assms 4 show ?thesis by (simp add: is_leap_def)
  qed
qed


lemma ymd2ord_decomp:
  fixes a b c d e m dy :: int
  assumes "0 \<le> b" "b \<le> 3" "0 \<le> c" "c \<le> 24" "0 \<le> d" "d \<le> 3"
    and "sum_list (take (nat (m - 1)) DAYS_IN_MONTH)
           + (if m > 2 \<and> (d = 3 \<and> (c \<noteq> 24 \<or> b = 3)) then 1 else 0) + dy = e + 1"
  shows "ymd2ord (400 * a + 100 * b + 4 * c + d + 1) m dy
         = 146097 * a + 36524 * b + 1461 * c + 365 * d + e + 1"
  using assms(7)
  by (simp add: ymd2ord_def days_before_month_def days_before_year_decomp[OF assms(1-6)]
      is_leap_decomp[OF assms(1-6)])

lemma ord2ymd_round_trip:
  assumes "1 \<le> n"
  shows "\<exists>y m dy. ord2ymd n = (y, m, dy) \<and> ymd2ord y m dy = n
           \<and> 1 \<le> y \<and> 1 \<le> m \<and> m \<le> 12 \<and> 1 \<le> dy \<and> dy \<le> 31
           \<and> (n \<le> 3652059 \<longrightarrow> y \<le> 9999)"
proof -
  define n0 where "n0 = n - 1"
  define a where "a = n0 div 146097"
  define n1 where "n1 = n0 mod 146097"
  define b where "b = n1 div 36524"
  define n2 where "n2 = n1 mod 36524"
  define c where "c = n2 div 1461"
  define n3 where "n3 = n2 mod 1461"
  define d where "d = n3 div 365"
  define e where "e = n3 mod 365"
  have n0: "0 \<le> n0" using assms by (simp add: n0_def)
  have e0: "n0 = 146097 * a + n1" by (simp add: a_def n1_def)
  have r1: "0 \<le> n1" "n1 < 146097" by (simp_all add: n1_def)
  have e1: "n1 = 36524 * b + n2" by (simp add: b_def n2_def)
  have r2: "0 \<le> n2" "n2 < 36524" by (simp_all add: n2_def)
  have e2: "n2 = 1461 * c + n3" by (simp add: c_def n3_def)
  have r3: "0 \<le> n3" "n3 < 1461" by (simp_all add: n3_def)
  have e3: "n3 = 365 * d + e" by (simp add: d_def e_def)
  have re: "0 \<le> e" "e < 365" by (simp_all add: e_def)
  have ra: "0 \<le> a" using n0 e0 r1 by linarith
  have rb: "0 \<le> b" "b \<le> 4" using e1 r1 r2 by linarith+
  have rc: "0 \<le> c" "c \<le> 24" using e2 r2 r3 by linarith+
  have rd: "0 \<le> d" "d \<le> 4" using e3 r3 re by linarith+
  have n: "n = 146097 * a + 36524 * b + 1461 * c + 365 * d + e + 1"
    using e0 e1 e2 e3 by (simp add: n0_def)
  have o: "ord2ymd n =
      (if d = 4 \<or> b = 4 then (a * 400 + 1 + b * 100 + c * 4 + d - 1, 12, 31)
       else (case month_day (d = 3 \<and> (c \<noteq> 24 \<or> b = 3)) e of
               (month, day) \<Rightarrow> (a * 400 + 1 + b * 100 + c * 4 + d, month, day)))"
    by (simp add: ord2ymd_def Let_def n0_def a_def n1_def b_def n2_def c_def n3_def d_def e_def)
  have dec: "sum_list (take (nat (12 - 1)) DAYS_IN_MONTH) + (if (12::int) > 2 \<and> True then 1 else 0) + 31
      = (365 :: int) + 1"
    by (simp add: DAYS_IN_MONTH_def)
  consider (century) "b = 4" | (fourth) "b \<le> 3" "d = 4" | (plain) "b \<le> 3" "d \<le> 3"
    using rb rd by linarith
  then show ?thesis
  proof cases
    case century
    with e1 r1 r2 have "n2 = 0" by linarith
    with e2 r3 rc e3 re rd have z: "c = 0" "d = 0" "e = 0" by linarith+
    have y: "a * 400 + 1 + b * 100 + c * 4 + d - 1 = 400 * a + 100 * 3 + 4 * 24 + 3 + 1"
      using century z by simp
    have "ymd2ord (400 * a + 100 * 3 + 4 * 24 + 3 + 1) 12 31
        = 146097 * a + 36524 * 3 + 1461 * 24 + 365 * 3 + 365 + 1"
      by (rule ymd2ord_decomp) (simp_all add: DAYS_IN_MONTH_def)
    also have "\<dots> = n" using n century z by simp
    finally have rt: "ymd2ord (a * 400 + 1 + b * 100 + c * 4 + d - 1) 12 31 = n"
      by (simp only: y)
    have yr: "1 \<le> a * 400 + 1 + b * 100 + c * 4 + d - 1" using ra century z by simp
    have ymax: "a * 400 + 1 + b * 100 + c * 4 + d - 1 \<le> 9999" if "n \<le> 3652059"
      using that n century z by simp
    from o century rt yr ymax show ?thesis by simp
  next
    case fourth
    with e3 r3 re have ez: "e = 0" by linarith
    from fourth e2 e3 r2 ez have c23: "c \<le> 23" by linarith
    have y: "a * 400 + 1 + b * 100 + c * 4 + d - 1 = 400 * a + 100 * b + 4 * c + 3 + 1"
      using fourth by simp
    have "ymd2ord (400 * a + 100 * b + 4 * c + 3 + 1) 12 31
        = 146097 * a + 36524 * b + 1461 * c + 365 * 3 + 365 + 1"
      by (rule ymd2ord_decomp) (use rb rc fourth c23 in \<open>simp_all add: DAYS_IN_MONTH_def\<close>)
    also have "\<dots> = n" using n fourth ez by simp
    finally have rt: "ymd2ord (a * 400 + 1 + b * 100 + c * 4 + d - 1) 12 31 = n"
      by (simp only: y)
    have yr: "1 \<le> a * 400 + 1 + b * 100 + c * 4 + d - 1" using ra rb rc fourth by simp
    have ymax: "a * 400 + 1 + b * 100 + c * 4 + d - 1 \<le> 9999" if "n \<le> 3652059"
      using that n fourth ez ra rb rc c23 by linarith
    from o fourth rt yr ymax show ?thesis by simp
  next
    case plain
    let ?L = "d = 3 \<and> (c \<noteq> 24 \<or> b = 3)"
    obtain m dy where md: "month_day ?L e = (m, dy)" by (cases "month_day ?L e")
    from re have "month_day_ok ?L e" by (intro month_day_okD) simp_all
    with md have rm: "1 \<le> m" "m \<le> 12" "1 \<le> dy" "dy \<le> 31"
      and s: "sum_list (take (nat (m - 1)) DAYS_IN_MONTH) + (if m > 2 \<and> ?L then 1 else 0) + dy = e + 1"
      by (simp_all add: month_day_ok_def)
    have y: "a * 400 + 1 + b * 100 + c * 4 + d = 400 * a + 100 * b + 4 * c + d + 1" by simp
    have "ymd2ord (400 * a + 100 * b + 4 * c + d + 1) m dy
        = 146097 * a + 36524 * b + 1461 * c + 365 * d + e + 1"
      by (rule ymd2ord_decomp[OF rb(1) plain(1) rc rd(1) plain(2) s])
    with n have rt: "ymd2ord (a * 400 + 1 + b * 100 + c * 4 + d) m dy = n"
      by (simp only: y)
    have yr: "1 \<le> a * 400 + 1 + b * 100 + c * 4 + d" using ra rb rc rd by simp
    have ymax: "a * 400 + 1 + b * 100 + c * 4 + d \<le> 9999" if "n \<le> 3652059"
      using that n plain ra rb rc rd re by linarith
    from o plain md rt yr ymax rm show ?thesis by simp
  qed
qed

section \<open>The serializer hook\<close>



end
